theory Spec2Isabelle
  imports Complex_Main
begin

section \<open>JavaScript numbers\<close>

text \<open>
  A JavaScript Number is an IEEE 754 binary64 value: a finite dyadic rational, one of the
  two infinities, or NaN. Finite values are kept as exact rationals; every operation that
  can be inexact rounds its exact result to the nearest binary64 value, ties to even
  (\<open>round64\<close>). The sign of zero is not represented: the integers of the data are
  never \<open>-0\<close>, sums, differences and products of them that are zero are \<open>+0\<close>, and the
  page only prints a quotient that is zero, as \<open>0\<close> whatever its sign.
\<close>

datatype jsnum = Fin rat | PosInf | NegInf | NaN

function bitlen :: "int \<Rightarrow> nat" where
  "bitlen n = (if n \<le> 0 then 0 else Suc (bitlen (n div 2)))"
  by pat_completeness auto
termination
  by (relation "measure nat") auto

definition pow2 :: "int \<Rightarrow> rat" where
  "pow2 e = (if 0 \<le> e then of_int (2 ^ nat e) else 1 / of_int (2 ^ nat (- e)))"

definition binade :: "rat \<Rightarrow> int" where
  \<comment> \<open>for \<open>0 < q\<close>: the exponent \<open>k\<close> with \<open>2^k \<le> q < 2^(k+1)\<close>\<close>
  "binade q = (case quotient_of q of (a, b) \<Rightarrow>
     (let k = int (bitlen a) - int (bitlen b)
      in if pow2 k \<le> q then k else k - 1))"

definition round_half_even :: "rat \<Rightarrow> int" where
  "round_half_even q = (let f = \<lfloor>q\<rfloor>; d = q - of_int f
     in if d < 1 / 2 then f else if 1 / 2 < d then f + 1 else if even f then f else f + 1)"

definition round64 :: "rat \<Rightarrow> jsnum" where
  \<comment> \<open>53 significant bits, least exponent \<open>-1074\<close>, overflow to an infinity\<close>
  "round64 q = (if q = 0 then Fin 0 else
     (let e = max (binade \<bar>q\<bar>) (- 1022) - 52;
          r = of_int (round_half_even (q / pow2 e)) * pow2 e
      in if of_int (2 ^ 1024) \<le> \<bar>r\<bar> then (if 0 < q then PosInf else NegInf) else Fin r))"

definition js_int :: "int \<Rightarrow> jsnum" where
  \<comment> \<open>the Number that an integer of the JSON data is read as\<close>
  "js_int i = round64 (of_int i)"

fun js_add :: "jsnum \<Rightarrow> jsnum \<Rightarrow> jsnum" where
  \<comment> \<open>\<open>x + y\<close> on Numbers\<close>
  "js_add (Fin a) (Fin b) = round64 (a + b)"
| "js_add NaN y = NaN"
| "js_add x NaN = NaN"
| "js_add PosInf NegInf = NaN"
| "js_add NegInf PosInf = NaN"
| "js_add PosInf y = PosInf"
| "js_add x PosInf = PosInf"
| "js_add NegInf y = NegInf"
| "js_add x NegInf = NegInf"

fun js_sub :: "jsnum \<Rightarrow> jsnum \<Rightarrow> jsnum" where
  \<comment> \<open>\<open>x - y\<close> on Numbers\<close>
  "js_sub (Fin a) (Fin b) = round64 (a - b)"
| "js_sub NaN y = NaN"
| "js_sub x NaN = NaN"
| "js_sub PosInf PosInf = NaN"
| "js_sub NegInf NegInf = NaN"
| "js_sub PosInf y = PosInf"
| "js_sub x PosInf = NegInf"
| "js_sub NegInf y = NegInf"
| "js_sub x NegInf = PosInf"

fun js_mul :: "jsnum \<Rightarrow> jsnum \<Rightarrow> jsnum" where
  \<comment> \<open>\<open>x * y\<close> on Numbers\<close>
  "js_mul (Fin a) (Fin b) = round64 (a * b)"
| "js_mul NaN y = NaN"
| "js_mul x NaN = NaN"
| "js_mul (Fin a) PosInf = (if a = 0 then NaN else if 0 < a then PosInf else NegInf)"
| "js_mul (Fin a) NegInf = (if a = 0 then NaN else if 0 < a then NegInf else PosInf)"
| "js_mul PosInf (Fin b) = (if b = 0 then NaN else if 0 < b then PosInf else NegInf)"
| "js_mul NegInf (Fin b) = (if b = 0 then NaN else if 0 < b then NegInf else PosInf)"
| "js_mul PosInf PosInf = PosInf"
| "js_mul PosInf NegInf = NegInf"
| "js_mul NegInf PosInf = NegInf"
| "js_mul NegInf NegInf = PosInf"

fun js_div :: "jsnum \<Rightarrow> jsnum \<Rightarrow> jsnum" where
  \<comment> \<open>\<open>x / y\<close> on Numbers: division by zero is not an error; a zero is \<open>+0\<close>\<close>
  "js_div (Fin a) (Fin b) =
     (if b = 0 then (if a = 0 then NaN else if 0 < a then PosInf else NegInf)
      else round64 (a / b))"
| "js_div NaN y = NaN"
| "js_div x NaN = NaN"
| "js_div (Fin a) PosInf = Fin 0"
| "js_div (Fin a) NegInf = Fin 0"
| "js_div PosInf (Fin b) = (if 0 \<le> b then PosInf else NegInf)"
| "js_div NegInf (Fin b) = (if 0 \<le> b then NegInf else PosInf)"
| "js_div PosInf y = NaN"
| "js_div NegInf y = NaN"

fun js_gt :: "jsnum \<Rightarrow> jsnum \<Rightarrow> bool" where
  \<comment> \<open>\<open>x > y\<close> on Numbers\<close>
  "js_gt (Fin a) (Fin b) = (b < a)"
| "js_gt NaN y = False"
| "js_gt x NaN = False"
| "js_gt PosInf PosInf = False"
| "js_gt PosInf y = True"
| "js_gt x PosInf = False"
| "js_gt NegInf y = False"
| "js_gt x NegInf = True"

fun is_finite :: "jsnum \<Rightarrow> bool" where
  "is_finite (Fin q) = True"
| "is_finite PosInf = False"
| "is_finite NegInf = False"
| "is_finite NaN = False"

fun exact_sum :: "jsnum list \<Rightarrow> rat option" where
  \<comment> \<open>the sum, as a real number, of a list of Numbers that are all finite\<close>
  "exact_sum [] = Some 0"
| "exact_sum (Fin q # xs) = (case exact_sum xs of None \<Rightarrow> None | Some s \<Rightarrow> Some (q + s))"
| "exact_sum (x # xs) = None"

subsection \<open>Conversion to strings\<close>

fun nat_to_string :: "nat \<Rightarrow> string" where
  "nat_to_string n = (if n < 10 then [''0123456789'' ! n]
                      else nat_to_string (n div 10) @ [''0123456789'' ! (n mod 10)])"

definition int_to_string :: "int \<Rightarrow> string" where
  "int_to_string i = (if i < 0 then ''-'' @ nat_to_string (nat (- i)) else nat_to_string (nat i))"

fun whole :: "jsnum \<Rightarrow> bool" where
  \<comment> \<open>a Number without a fractional part\<close>
  "whole (Fin q) = (of_int \<lfloor>q\<rfloor> = q)"
| "whole x = True"

fun number_to_string :: "(int \<Rightarrow> string) \<Rightarrow> (rat \<Rightarrow> string) \<Rightarrow> jsnum \<Rightarrow> string" where
  \<comment> \<open>a whole number below \<open>2^53\<close> is written with all its digits; the form of a larger
      whole number (its shortest digits that read back as the same Number, then zeros or
      an exponent) is left to the parameter \<open>big\<close>, and the decimal form of any other
      finite Number to the parameter \<open>dec\<close>\<close>
  "number_to_string big dec (Fin q)
     = (if of_int \<lfloor>q\<rfloor> = q
        then (if \<bar>\<lfloor>q\<rfloor>\<bar> < 2 ^ 53 then int_to_string \<lfloor>q\<rfloor> else big \<lfloor>q\<rfloor>)
        else dec q)"
| "number_to_string big dec PosInf = ''Infinity''"
| "number_to_string big dec NegInf = ''-Infinity''"
| "number_to_string big dec NaN = ''NaN''"

section \<open>Data model\<close>

text \<open>
  A row of the sub-table, as delivered by \<open>GET /requests/{id}/parametricjobs\<close>. The
  counts are integers in the JSON data; the page reads each as a Number (\<open>js_int\<close>) and
  every operation on them is an operation on Numbers.
\<close>

record parametricjob =
  id' :: int
  request_id :: int
  status :: string
  reschedule :: bool
  njobs :: int
  num_completed :: int
  num_failed :: int
  num_running :: int
  num_submitted :: int

section \<open>Progress formatter\<close>

record progress_locals =
  striped :: string
  percent_completed :: jsnum
  percent_failed :: jsnum
  percent_running :: jsnum
  percent_submitted :: jsnum
  num_other :: jsnum
  percent_other :: jsnum

definition formatprogress_locals :: "parametricjob \<Rightarrow> progress_locals" where
  "formatprogress_locals pj =
     (let total = js_int (njobs pj);
          completed = js_int (num_completed pj);
          failed = js_int (num_failed pj);
          running = js_int (num_running pj);
          submitted = js_int (num_submitted pj);
          other = js_sub total (js_add (js_add (js_add submitted running) completed) failed)
      in \<lparr>striped = (if js_gt (js_add running submitted) (Fin 0)
                      then ''progress-bar-striped active'' else []),
          percent_completed = js_div (js_mul (Fin 100) completed) total,
          percent_failed = js_div (js_mul (Fin 100) failed) total,
          percent_running = js_div (js_mul (Fin 100) running) total,
          percent_submitted = js_div (js_mul (Fin 100) submitted) total,
          num_other = other,
          percent_other = js_div (js_mul (Fin 100) other) total\<rparr>)"

definition progress_bar :: "string \<Rightarrow> string \<Rightarrow> string \<Rightarrow> string \<Rightarrow> string \<Rightarrow> string" where
  \<comment> \<open>one segment of the bar: colour class, striping, width, extra style, label\<close>
  \<open>progress_bar cls strp width extra label =
     ''                    <div class="progress-bar'' @ cls @ '' '' @ strp
       @ ''" role="progressbar" style="width:'' @ width @ ''%'' @ extra @ ''">'' @ [CHR 0x0A]
     @ ''                      '' @ label @ [CHR 0x0A]
     @ ''                    </div>'' @ [CHR 0x0A]\<close>

definition formatprogress :: "(int \<Rightarrow> string) \<Rightarrow> (rat \<Rightarrow> string) \<Rightarrow> parametricjob \<Rightarrow> string" where
  \<open>formatprogress big dec pj =
     (let l = formatprogress_locals pj; pct = number_to_string big dec
      in [CHR 0x0A]
       @ ''                <div class="container" style="width:150px;border:0px;padding:0px;padding-top:15px">''
       @ [CHR 0x0A]
       @ ''                  <div class="progress" style="background:rgba(214, 214, 214, 1)">''
       @ [CHR 0x0A]
       @ progress_bar '' progress-bar-success'' (striped l) (pct (percent_completed l)) ''''
           (pct (js_int (num_completed pj)))
       @ progress_bar '' progress-bar-danger'' (striped l) (pct (percent_failed l)) ''''
           (pct (js_int (num_failed pj)))
       @ progress_bar '' progress-bar-info'' (striped l) (pct (percent_running l)) ''''
           (pct (js_int (num_running pj)))
       @ progress_bar '' progress-bar-warning'' (striped l) (pct (percent_submitted l)) ''''
           (pct (js_int (num_submitted pj)))
       @ progress_bar '''' (striped l) (pct (percent_other l)) '';background:grey''
           (pct (num_other l))
       @ ''                  </div>'' @ [CHR 0x0A]
       @ ''                </div>'')\<close>

section \<open>Sub-table cell renderers\<close>

text \<open>
  The \<open>render\<close> functions of the \<open>columnDefs\<close> of the sub-table; each receives
  \<open>(data, type, row, meta)\<close> and reads \<open>row\<close> only.
\<close>

definition render_progress :: "(int \<Rightarrow> string) \<Rightarrow> (rat \<Rightarrow> string) \<Rightarrow> parametricjob \<Rightarrow> string" where
  "render_progress big dec row = formatprogress big dec row"

definition render_status :: "parametricjob \<Rightarrow> string" where
  "render_status row = (if reschedule row then ''Rescheduled'' else status row)"

definition render_reschedule :: "parametricjob \<Rightarrow> string" where
  \<open>render_reschedule row =
     (if status row = ''Failed''
      then ''<span class="glyphicon glyphicon-repeat text-primary reschedule" style="cursor:pointer" macroid="''
           @ int_to_string (id' row) @ ''" requestid="'' @ int_to_string (request_id row)
           @ ''"></span>''
      else [])\<close>

section \<open>Selection manager\<close>

text \<open>
  \<open>rows\<close> holds, for each element of \<open>$("#tableBody tbody tr")\<close> in document order,
  whether it carries the class \<open>selected\<close>; \<open>last_selected\<close> is the variable of that
  name, \<open>0\<close> when the page is loaded. \<open>row_click\<close> is one run of the click handler, for
  the row \<open>this\<close> and the modifier keys of the event; \<open>length'\<close> is its local
  \<open>length\<close>, the \<open>size()\<close> of the set of rows less one.
\<close>

record selection =
  rows :: "bool list"
  last_selected :: int

definition slice_bounds :: "int \<Rightarrow> int \<Rightarrow> int \<Rightarrow> int \<times> int" where
  \<comment> \<open>\<open>.slice(start, end)\<close> on \<open>len\<close> elements keeps the indices \<open>k \<le> i < f\<close>\<close>
  "slice_bounds len start end' =
     ((if start < 0 then max (len + start) 0 else min start len),
      (if end' < 0 then max (len + end') 0 else min end' len))"

definition slice_addClass :: "int \<Rightarrow> int \<Rightarrow> bool list \<Rightarrow> bool list" where
  "slice_addClass start end' rs =
     (case slice_bounds (int (length rs)) start end' of (k, f) \<Rightarrow>
        map (\<lambda>i. rs ! i \<or> (k \<le> int i \<and> int i < f)) [0..<length rs])"

definition toggleClass :: "nat \<Rightarrow> bool list \<Rightarrow> bool list" where
  "toggleClass i rs = (if i < length rs then rs[i := \<not> rs ! i] else rs)"

definition index_of :: "nat \<Rightarrow> bool list \<Rightarrow> int" where
  \<comment> \<open>\<open>$(table_rows).index($(this))\<close>: \<open>-1\<close> for an element that is not in the set\<close>
  "index_of this rs = (if this < length rs then int this else - 1)"

definition row_click :: "bool \<Rightarrow> bool \<Rightarrow> nat \<Rightarrow> selection \<Rightarrow> selection" where
  "row_click ctrlKey shiftKey this st =
     (let table_rows = rows st;
          new_selected = index_of this table_rows;
          rows1 =
            (if \<not> ctrlKey \<and> \<not> shiftKey then map (\<lambda>_. False) table_rows
             else if shiftKey then
               (let rows2 =
                   (if new_selected < last_selected st then
                      (let length' = int (length table_rows) - 1
                       in slice_addClass (new_selected - length')
                            (last_selected st - length' - 1) table_rows)
                    else table_rows)
                in slice_addClass (last_selected st + 1) new_selected rows2)
             else table_rows)
      in \<lparr>rows = toggleClass this rows1, last_selected = new_selected\<rparr>)"

definition selected :: "selection \<Rightarrow> nat list" where
  \<comment> \<open>the indices of \<open>$("#tableBody tbody tr.selected")\<close>\<close>
  "selected st = filter (\<lambda>i. rows st ! i) [0..<length (rows st)]"

section \<open>Batched requests\<close>

datatype http_method = GET | PUT | DELETE

record ajax_settings =
  url :: string
  type' :: http_method
  data :: "(string \<times> string) list"

datatype promise_state = Pending | Resolved | Rejected

datatype ui_effect =
  Table_reload  \<comment> \<open>\<open>$("#tableBody").DataTable().ajax.reload()\<close>\<close>
| Bootstrap_alert string string string  \<comment> \<open>\<open>bootstrap_alert(status, message, level)\<close>\<close>

text \<open>
  \<open>$.when.apply(this, ajax_calls).done(callback)\<close>, as jQuery documents and implements
  it: the aggregate counts the subordinates that have not succeeded yet, resolves when
  the count reaches zero (at once for no subordinate), and rejects with the first
  subordinate that fails; \<open>done\<close> callbacks run when it resolves. \<open>jqxhr\<close> is the state of
  each request, \<open>performed\<close> what the callback has done so far.
\<close>

record batch =
  ajax_calls :: "ajax_settings list"
  jqxhr :: "promise_state list"
  remaining :: nat
  deferred :: promise_state
  done_callback :: "ui_effect list"
  performed :: "ui_effect list"

definition when_done :: "ajax_settings list \<Rightarrow> ui_effect list \<Rightarrow> batch" where
  "when_done calls callback =
     \<lparr>ajax_calls = calls,
      jqxhr = map (\<lambda>_. Pending) calls,
      remaining = length calls,
      deferred = (if length calls = 0 then Resolved else Pending),
      done_callback = callback,
      performed = (if length calls = 0 then callback else [])\<rparr>"

definition settle :: "nat \<Rightarrow> bool \<Rightarrow> batch \<Rightarrow> batch" where
  \<comment> \<open>the server answers request \<open>k\<close>, with success or with an error\<close>
  "settle k success b =
     (if k < length (jqxhr b) \<and> jqxhr b ! k = Pending then
        (if success then
           (let r = remaining b - 1; fire = (r = 0 \<and> deferred b = Pending)
            in b\<lparr>jqxhr := (jqxhr b)[k := Resolved],
                 remaining := r,
                 deferred := (if fire then Resolved else deferred b),
                 performed := (if fire then performed b @ done_callback b else performed b)\<rparr>)
         else
           b\<lparr>jqxhr := (jqxhr b)[k := Rejected],
             deferred := (if deferred b = Pending then Rejected else deferred b)\<rparr>)
      else b)"

fun run :: "(nat \<times> bool) list \<Rightarrow> batch \<Rightarrow> batch" where
  "run [] b = b"
| "run ((k, success) # evs) b = run evs (settle k success b)"

definition batch_inv :: "batch \<Rightarrow> bool" where
  \<comment> \<open>what every reachable state of a batch satisfies\<close>
  "batch_inv b \<longleftrightarrow>
     length (jqxhr b) = length (ajax_calls b) \<and>
     remaining b = length (filter (\<lambda>s. s \<noteq> Resolved) (jqxhr b)) \<and>
     deferred b = (if Rejected \<in> set (jqxhr b) then Rejected
                   else if remaining b = 0 then Resolved else Pending) \<and>
     performed b = (if deferred b = Resolved then done_callback b else [])"

text \<open>
  The answers of the server are a list of pairs \<open>(k, success)\<close> in the order of their
  arrival. A request is answered once, so the first pair for \<open>k\<close> is the answer to
  request \<open>k\<close>: \<open>map_of evs k\<close>.
\<close>

definition all_succeeded :: "nat \<Rightarrow> (nat \<times> bool) list \<Rightarrow> bool" where
  \<comment> \<open>each of the \<open>n\<close> requests has been answered, with success\<close>
  "all_succeeded n evs = list_all (\<lambda>k. map_of evs k = Some True) [0..<n]"

definition some_failed :: "nat \<Rightarrow> (nat \<times> bool) list \<Rightarrow> bool" where
  \<comment> \<open>one of the \<open>n\<close> requests has been answered with an error\<close>
  "some_failed n evs = list_ex (\<lambda>k. map_of evs k = Some False) [0..<n]"

section \<open>Context-menu actions and the Delete key\<close>

text \<open>
  \<open>ids\<close> is the list stored by the context menu in its \<open>ids\<close> property, the ids of the
  selected rows. A handler that returns \<open>false\<close> at once because its entry carries the
  class \<open>disabled\<close> gives \<open>None\<close>.
\<close>

definition contextApprove_click :: "bool \<Rightarrow> int list \<Rightarrow> batch option" where
  "contextApprove_click disabled ids =
     (if disabled then None
      else Some (when_done
        (map (\<lambda>i. \<lparr>url = ''/requests/'' @ int_to_string i, type' = PUT,
                    data = [(''status'', ''Approved'')]\<rparr>) ids)
        [Table_reload,
         Bootstrap_alert ''Info!''
           (''Approved '' @ int_to_string (int (length ids)) @ '' request(s)'') ''alert-info'']))"

definition contextDelete_click :: "bool \<Rightarrow> int list \<Rightarrow> batch option" where
  "contextDelete_click disabled ids =
     (if disabled then None
      else Some (when_done
        (map (\<lambda>i. \<lparr>url = ''/requests/'' @ int_to_string i, type' = DELETE, data = []\<rparr>) ids)
        [Table_reload,
         Bootstrap_alert ''Attention!''
           (''Deleted '' @ int_to_string (int (length ids)) @ '' request(s)'') ''alert-danger'']))"

datatype dialog = Confirm string "bool \<Rightarrow> batch option"
  \<comment> \<open>\<open>bootbox.confirm(message, callback)\<close>; the callback receives the user's answer\<close>

definition confirm_callback :: "int list \<Rightarrow> bool \<Rightarrow> batch option" where
  "confirm_callback selected_ids result =
     (if \<not> result then None
      else (let calls = map (\<lambda>i. \<lparr>url = ''/requests/'' @ int_to_string i, type' = DELETE,
                                   data = []\<rparr>) selected_ids
            in Some (when_done calls
                 [Table_reload,
                  Bootstrap_alert ''Attention!''
                    (''Deleted '' @ int_to_string (int (length calls)) @ '' requests'')
                    ''alert-danger''])))"

definition body_keypress :: "int \<Rightarrow> int list \<Rightarrow> dialog option" where
  \<comment> \<open>\<open>selected_ids\<close>: the ids of the rows of \<open>$("#tableBody tbody tr.selected")\<close>\<close>
  "body_keypress keyCode selected_ids =
     (if keyCode = 46 then
        (if length selected_ids = 0 then None
         else Some (Confirm
           (''Really delete '' @ int_to_string (int (length selected_ids)) @ '' request(s)?'')
           (confirm_callback selected_ids)))
      else None)"

section \<open>Values, page load and the refresh timer\<close>

datatype callable = Refresh_table
  \<comment> \<open>the function of this file that can be called without arguments\<close>

datatype jsval =
  JUndefined | JNull | JBool bool | JNumber int | JObject "(string \<times> jsval) list"
| JFunction callable

record page =
  requests :: "ajax_settings list"  \<comment> \<open>the requests issued so far\<close>
  invocations :: nat  \<comment> \<open>how often \<open>refresh_table\<close> has been entered\<close>
  timers :: "(jsval \<times> nat) list"  \<comment> \<open>the handlers given to \<open>setInterval\<close>, with their delays\<close>

definition initial_page :: page where
  "initial_page = \<lparr>requests = [], invocations = 0, timers = []\<rparr>"

definition refresh_table :: "page \<Rightarrow> jsval \<times> page" where
  \<comment> \<open>issues \<open>GET /requests\<close>; the function has no \<open>return\<close> statement\<close>
  "refresh_table p =
     (JUndefined,
      p\<lparr>requests := requests p @ [\<lparr>url = ''/requests'', type' = GET, data = []\<rparr>],
        invocations := Suc (invocations p)\<rparr>)"

definition setInterval :: "jsval \<Rightarrow> nat \<Rightarrow> page \<Rightarrow> page" where
  "setInterval handler delay p = p\<lparr>timers := timers p @ [(handler, delay)]\<rparr>"

fun call :: "callable \<Rightarrow> page \<Rightarrow> jsval \<times> page" where
  "call Refresh_table p = refresh_table p"

fun timer_fire :: "jsval \<Rightarrow> page \<Rightarrow> page" where
  \<comment> \<open>a handler that is a function is called; any other value is converted to a string
      and compiled as a script: \<open>undefined\<close>, \<open>null\<close>, a boolean or a number is an
      expression without effect, and \<open>[object Object]\<close> does not compile\<close>
  "timer_fire (JFunction f) p = snd (call f p)"
| "timer_fire v p = p"

fun is_function :: "jsval \<Rightarrow> bool" where
  "is_function (JFunction f) = True"
| "is_function v = False"

definition document_ready :: "page \<Rightarrow> page" where
  \<comment> \<open>\<open>setInterval(refresh_table(), 300000)\<close>: the argument is evaluated first\<close>
  "document_ready p = (case refresh_table p of (v, p') \<Rightarrow> setInterval v 300000 p')"

definition interval_elapsed :: "page \<Rightarrow> page" where
  \<comment> \<open>one more delay has passed: every registered handler fires once\<close>
  "interval_elapsed p = fold (\<lambda>(handler, delay). timer_fire handler) (timers p) p"

section \<open>Sub-table refresher\<close>

datatype js_error = ReferenceError string | TypeError string | SyntaxError string

fun get_property :: "jsval \<Rightarrow> string \<Rightarrow> js_error + jsval" where
  "get_property JUndefined name = Inl (TypeError name)"
| "get_property JNull name = Inl (TypeError name)"
| "get_property (JObject props) name =
     Inr (case map_of props name of None \<Rightarrow> JUndefined | Some v \<Rightarrow> v)"
| "get_property v name = Inr JUndefined"

definition refresh_subtable :: "int \<Rightarrow> ajax_settings" where
  "refresh_subtable request_id' =
     \<lparr>url = ''/requests/'' @ int_to_string request_id' @ ''/parametricjobs'', type' = GET,
      data = []\<rparr>"

record 'j datatable_init =
  selector :: string
  data' :: "parametricjob list"
  order' :: 'j
  columns :: 'j

definition header_text :: "string option \<Rightarrow> string" where
  \<comment> \<open>\<open>getResponseHeader\<close> gives \<open>null\<close> for a missing header, which \<open>JSON.parse\<close>
      converts to the text \<open>null\<close>\<close>
  "header_text h = (case h of None \<Rightarrow> ''null'' | Some s \<Rightarrow> s)"

text \<open>
  The \<open>success\<close> callback of \<open>refresh_subtable\<close>. Its first statement builds an array for
  the variable \<open>columns\<close> from a template that reads \<open>parametricjob.id\<close>. No function
  around the callback declares \<open>parametricjob\<close> (the callback has \<open>response\<close>, \<open>status\<close>
  and \<open>request\<close>, \<open>refresh_subtable\<close> has \<open>request_id\<close>, the page-load function has
  \<open>formatprogress\<close>, \<open>refresh_table\<close>, \<open>refresh_subtable\<close> and \<open>last_selected\<close>), so the
  name is looked up in the global object \<open>globals\<close>. \<open>json_parse\<close> is \<open>JSON.parse\<close>,
  \<open>None\<close> where it throws. The result is the error thrown or the arguments with which
  \<open>DataTable\<close> is called.
\<close>

definition subtable_success ::
  "(string \<Rightarrow> jsval option) \<Rightarrow> (string \<Rightarrow> 'j option) \<Rightarrow> int \<Rightarrow> parametricjob list
     \<Rightarrow> (string \<Rightarrow> string option) \<Rightarrow> js_error + 'j datatable_init" where
  "subtable_success globals json_parse request_id' response getResponseHeader =
     (case globals ''parametricjob'' of
        None \<Rightarrow> Inl (ReferenceError ''parametricjob'')
      | Some pj \<Rightarrow>
          (case get_property pj ''id'' of
             Inl e \<Rightarrow> Inl e
           | Inr macroid \<Rightarrow>
               (case json_parse (header_text (getResponseHeader ''Datatable-Order'')) of
                  None \<Rightarrow> Inl (SyntaxError ''Datatable-Order'')
                | Some ord \<Rightarrow>
                    (case json_parse (header_text (getResponseHeader ''Datatable-Columns'')) of
                       None \<Rightarrow> Inl (SyntaxError ''Datatable-Columns'')
                     | Some cols \<Rightarrow>
                         Inr \<lparr>selector = ''#subtable-'' @ int_to_string request_id',
                              data' = response, order' = ord, columns = cols\<rparr>))))"

section \<open>Rounding to binary64\<close>

declare bitlen.simps [simp del]

lemma bitlen_pos: "0 < n \<Longrightarrow> bitlen n = Suc (bitlen (n div 2))"
  by (subst bitlen.simps) simp

lemma bitlen_nonpos: "n \<le> 0 \<Longrightarrow> bitlen n = 0"
  by (subst bitlen.simps) simp

lemma bitlen_bounds: "0 < n \<Longrightarrow> 2 ^ (bitlen n - 1) \<le> n \<and> n < 2 ^ bitlen n"
proof (induction n rule: bitlen.induct)
  case (1 n)
  have step: "bitlen n = Suc (bitlen (n div 2))"
    using "1.prems" by (rule bitlen_pos)
  show ?case
  proof (cases "n div 2 = 0")
    case True
    with "1.prems" have "n = 1" by presburger
    then show ?thesis by (simp add: bitlen_pos bitlen_nonpos)
  next
    case False
    with "1.prems" have half: "0 < n div 2" by presburger
    with "1.IH" "1.prems"
    have ih: "2 ^ (bitlen (n div 2) - 1) \<le> n div 2" "n div 2 < 2 ^ bitlen (n div 2)"
      by simp_all
    from half have "0 < bitlen (n div 2)" by (simp add: bitlen_pos)
    then have pw: "(2::int) ^ bitlen (n div 2) = 2 * 2 ^ (bitlen (n div 2) - 1)"
      by (cases "bitlen (n div 2)") simp_all
    have lo: "(2::int) ^ bitlen (n div 2) \<le> n"
      using ih(1) pw by presburger
    have hi: "n < 2 * 2 ^ bitlen (n div 2)"
      using ih(2) by presburger
    show ?thesis using lo hi by (simp add: step)
  qed
qed

lemma round_half_even_of_int: "round_half_even (of_int m) = m"
  by (simp add: round_half_even_def)

lemma binade_of_int:
  assumes "0 < a"
  shows "binade (of_int a) = int (bitlen a) - 1"
proof -
  have one: "bitlen 1 = 1"
    by (simp add: bitlen_pos bitlen_nonpos)
  from assms have pos: "0 < bitlen a" by (simp add: bitlen_pos)
  have "(2::int) ^ (bitlen a - 1) \<le> a"
    using bitlen_bounds [OF assms] by simp
  then have "(of_int ((2::int) ^ (bitlen a - 1)) :: rat) \<le> of_int a"
    by (simp only: of_int_le_iff)
  then have le: "(2::rat) ^ (bitlen a - 1) \<le> of_int a"
    by simp
  have "nat (int (bitlen a) - 1) = bitlen a - 1" by simp
  with pos le have "pow2 (int (bitlen a) - 1) \<le> of_int a"
    by (simp add: pow2_def)
  then show ?thesis
    by (simp add: binade_def one)
qed

lemma round64_of_int:
  assumes "\<bar>k\<bar> < 2 ^ 53"
  shows "round64 (of_int k) = Fin (of_int k)"
proof (cases "k = 0")
  case True
  then show ?thesis by (simp add: round64_def)
next
  case False
  define a where "a = \<bar>k\<bar>"
  define b where "b = bitlen a - 1"
  from False have a: "0 < a" by (simp add: a_def)
  have bnd: "2 ^ b \<le> a" "a < 2 ^ bitlen a"
    using bitlen_bounds [OF a] by (simp_all add: b_def)
  from a have blen: "bitlen a = Suc b" by (simp add: b_def bitlen_pos)
  have "(2::int) ^ b < 2 ^ 53"
    using bnd(1) assms by (simp add: a_def)
  then have "b < 53" by (rule power_less_imp_less_exp [rotated]) simp
  then have b52: "b \<le> 52" by simp
  have abs: "\<bar>of_int k :: rat\<bar> = of_int a"
    by (simp add: a_def)
  have bin: "binade \<bar>of_int k :: rat\<bar> = int b"
    unfolding abs using binade_of_int [OF a] by (simp add: blen)
  define d where "d = 52 - b"
  have e: "max (int b) (- 1022) - 52 = - int d"
    using b52 by (simp add: d_def)
  have p: "pow2 (- int d) = 1 / 2 ^ d"
    by (cases "d = 0") (simp_all add: pow2_def)
  have scaled: "(of_int k :: rat) / (1 / 2 ^ d) = of_int (k * 2 ^ d)"
    by simp
  have unscaled: "(of_int (k * 2 ^ d) :: rat) * (1 / 2 ^ d) = of_int k"
    by simp
  have "(of_int a :: rat) < of_int (2 ^ 53)"
    using assms unfolding a_def by (simp only: of_int_less_iff)
  also have "\<dots> \<le> of_int (2 ^ 1024)" by simp
  finally have small: "\<not> (of_int (2 ^ 1024) \<le> \<bar>of_int k :: rat\<bar>)"
    unfolding abs by simp
  show ?thesis
    using False small
    by (simp only: round64_def Let_def bin e p scaled round_half_even_of_int unscaled
        of_int_eq_0_iff if_False)
qed

lemma pow2_alt: "pow2 e = (if 0 \<le> e then 2 ^ nat e else 1 / 2 ^ nat (- e))"
  by (simp add: pow2_def)

lemma pow2_pos: "0 < pow2 e"
  by (simp add: pow2_alt)

lemma pow2_mono: "x \<le> y \<Longrightarrow> pow2 x \<le> pow2 y"
proof -
  assume xy: "x \<le> y"
  have shift: "pow2 z = 2 ^ nat (z + int n) / 2 ^ n" if "0 \<le> z + int n" for z n
  proof (cases "0 \<le> z")
    case True
    then have "nat (z + int n) = nat z + n" by simp
    with True show ?thesis by (simp add: pow2_alt power_add)
  next
    case False
    with that have "n = nat (z + int n) + nat (- z)" by simp
    then have "(2::rat) ^ n = 2 ^ nat (z + int n) * 2 ^ nat (- z)"
      by (metis power_add)
    with False show ?thesis by (simp add: pow2_alt)
  qed
  define n where "n = nat (- x)"
  have x: "0 \<le> x + int n" and y: "0 \<le> y + int n"
    using xy by (simp_all add: n_def)
  have "(2::rat) ^ nat (x + int n) \<le> 2 ^ nat (y + int n)"
    using xy by (intro power_increasing) simp_all
  then show ?thesis
    unfolding shift [OF x] shift [OF y] by (simp add: divide_right_mono)
qed

lemma pow2_diff: "pow2 (int m - int n) = 2 ^ m / 2 ^ n"
proof (cases "n \<le> m")
  case True
  then have "nat (int m - int n) = m - n" by simp
  with True show ?thesis by (simp add: pow2_alt power_diff)
next
  case False
  then have "nat (- (int m - int n)) = n - m" by simp
  moreover from False have "(2::rat) ^ n = 2 ^ m * 2 ^ (n - m)"
    by (simp add: power_add [symmetric])
  ultimately show ?thesis using False by (simp add: pow2_alt)
qed

lemma binade_lower:
  assumes "0 < q"
  shows "pow2 (binade q) \<le> q"
proof -
  obtain a b where ab: "quotient_of q = (a, b)" by (cases "quotient_of q")
  then have b: "0 < b" by (rule quotient_of_denom_pos)
  from ab have q: "q = of_int a / of_int b" by (rule quotient_of_div)
  with assms b have a: "0 < a" by (simp add: zero_less_divide_iff)
  define k where "k = int (bitlen a) - int (bitlen b)"
  show ?thesis
  proof (cases "pow2 k \<le> q")
    case True
    then show ?thesis by (simp add: binade_def ab k_def)
  next
    case False
    then have bin: "binade q = k - 1" by (simp add: binade_def ab k_def)
    from a have la: "bitlen a = Suc (bitlen a - 1)" by (simp add: bitlen_pos)
    have "(2::int) ^ (bitlen a - 1) \<le> a" using bitlen_bounds [OF a] by simp
    then have "(of_int ((2::int) ^ (bitlen a - 1)) :: rat) \<le> of_int a"
      by (simp only: of_int_le_iff)
    then have lo: "(2::rat) ^ (bitlen a - 1) \<le> of_int a" by simp
    have "b < 2 ^ bitlen b" using bitlen_bounds [OF b] by simp
    then have "(of_int b :: rat) < of_int ((2::int) ^ bitlen b)"
      by (simp only: of_int_less_iff)
    then have hi: "(of_int b :: rat) \<le> 2 ^ bitlen b" by simp
    have "k - 1 = int (bitlen a - 1) - int (bitlen b)"
      using la by (simp add: k_def)
    then have "pow2 (k - 1) = 2 ^ (bitlen a - 1) / 2 ^ bitlen b"
      by (simp only: pow2_diff)
    also have "\<dots> \<le> of_int a / 2 ^ bitlen b"
      using lo by (simp add: divide_right_mono)
    also have "\<dots> \<le> of_int a / of_int b"
      using hi a b by (intro divide_left_mono) simp_all
    finally have "pow2 (k - 1) \<le> of_int a / of_int b" .
    from this [folded q] show ?thesis unfolding bin .
  qed
qed

lemma round_half_even_error: "\<bar>of_int (round_half_even x) - x\<bar> \<le> 1 / 2"
proof -
  have "of_int \<lfloor>x\<rfloor> \<le> x" and "x < of_int \<lfloor>x\<rfloor> + 1"
    by linarith+
  then show ?thesis
    by (auto simp: round_half_even_def Let_def)
qed

lemma round64_error:
  assumes "0 \<le> q" and "q < 2 ^ 7"
  shows "\<exists>p. round64 q = Fin p \<and> \<bar>p - q\<bar> \<le> 1 / 2 ^ 47"
proof (cases "q = 0")
  case True
  then show ?thesis by (simp add: round64_def)
next
  case False
  with assms have pos: "0 < q" by simp
  define e where "e = max (binade \<bar>q\<bar>) (- 1022) - 52"
  define m where "m = round_half_even (q / pow2 e)"
  have "pow2 (binade q) \<le> q" using pos by (rule binade_lower)
  also have "q < pow2 7" using assms(2) by (simp add: pow2_alt)
  finally have "\<not> pow2 7 \<le> pow2 (binade q)" by simp
  then have "\<not> 7 \<le> binade q" using pow2_mono by blast
  then have "e \<le> - 46" using pos by (simp add: e_def)
  then have "pow2 e \<le> pow2 (- 46)" by (rule pow2_mono)
  then have ulp: "pow2 e \<le> 1 / 2 ^ 46" by (simp add: pow2_alt)
  have "\<bar>of_int m * pow2 e - q\<bar> = \<bar>of_int m - q / pow2 e\<bar> * pow2 e"
  proof -
    have "of_int m * pow2 e - q = (of_int m - q / pow2 e) * pow2 e"
      using pow2_pos [of e] by (simp add: field_simps)
    then show ?thesis using pow2_pos [of e] by (simp add: abs_mult)
  qed
  also have "\<dots> \<le> 1 / 2 * pow2 e"
    unfolding m_def using round_half_even_error pow2_pos [of e]
    by (intro mult_right_mono) simp_all
  also have "\<dots> \<le> 1 / 2 * (1 / 2 ^ 46)"
    using ulp by simp
  finally have err: "\<bar>of_int m * pow2 e - q\<bar> \<le> 1 / 2 ^ 47" by simp
  with pos have "\<bar>of_int m * pow2 e\<bar> \<le> q + 1 / 2 ^ 47" by linarith
  also have "\<dots> < 2 ^ 7 + 1" using assms(2) by simp
  also have "\<dots> \<le> (2::rat) ^ 1024" by simp
  finally have small: "\<not> 2 ^ 1024 \<le> \<bar>of_int m * pow2 e\<bar>" by simp
  have "round64 q = Fin (of_int m * pow2 e)"
    using False small by (simp add: round64_def Let_def e_def [symmetric] m_def [symmetric])
  with err show ?thesis by blast
qed

section \<open>Whole numbers\<close>

lemma round_half_even_bounds: "\<lfloor>x\<rfloor> \<le> round_half_even x \<and> round_half_even x \<le> \<lceil>x\<rceil>"
proof -
  have "\<lfloor>x\<rfloor> + 1 \<le> \<lceil>x\<rceil>" if "0 < x - of_int \<lfloor>x\<rfloor>"
    using that by linarith
  moreover have "\<lfloor>x\<rfloor> \<le> \<lceil>x\<rceil>" by linarith
  ultimately show ?thesis
    by (auto simp: round_half_even_def Let_def)
qed

lemma round64_large_int:
  assumes "2 ^ 53 \<le> \<bar>k\<bar>"
  shows "\<exists>k'. sgn k' = sgn k
    \<and> round64 (of_int k)
        = (if of_int (2 ^ 1024) \<le> \<bar>of_int k' :: rat\<bar> then (if 0 < k then PosInf else NegInf)
           else Fin (of_int k'))"
proof -
  define a where "a = \<bar>k\<bar>"
  define b where "b = bitlen a - 1"
  from assms have a: "0 < a" by (simp add: a_def)
  from assms have k0: "k \<noteq> 0" by auto
  have bnd: "2 ^ b \<le> a" "a < 2 ^ bitlen a"
    using bitlen_bounds [OF a] by (simp_all add: b_def)
  from a have blen: "bitlen a = Suc b" by (simp add: b_def bitlen_pos)
  have "a < 2 ^ Suc b"
    using bnd(2) by (simp only: blen)
  with assms have "(2::int) ^ 53 < 2 ^ Suc b"
    unfolding a_def by linarith
  then have "53 < Suc b" by (rule power_less_imp_less_exp [rotated]) simp
  then have b53: "53 \<le> b" by simp
  define d where "d = b - 52"
  have abs: "\<bar>of_int k :: rat\<bar> = of_int a"
    by (simp add: a_def)
  have bin: "binade \<bar>of_int k :: rat\<bar> = int b"
    unfolding abs using binade_of_int [OF a] by (simp add: blen)
  have e: "max (int b) (- 1022) - 52 = int d"
    using b53 by (simp add: d_def)
  have p: "pow2 (int d) = of_int (2 ^ d)"
    by (simp add: pow2_def)
  define m where "m = round_half_even (of_int k / of_int (2 ^ d))"
  have "(2::int) ^ d \<le> 2 ^ b"
    by (intro power_increasing) (simp_all add: d_def)
  from this bnd(1) have da: "(2::int) ^ d \<le> a" by (rule order_trans)
  then have "(of_int ((2::int) ^ d) :: rat) \<le> of_int a"
    by (simp only: of_int_le_iff)
  then have ratio: "1 \<le> (of_int a :: rat) / of_int (2 ^ d)"
    by (simp add: le_divide_eq)
  have sg: "sgn (m * 2 ^ d) = sgn k"
  proof (cases "0 < k")
    case True
    then have "(of_int k :: rat) / of_int (2 ^ d) = of_int a / of_int (2 ^ d)"
      by (simp add: a_def)
    with ratio have "1 \<le> (of_int k :: rat) / of_int (2 ^ d)" by simp
    then have "1 \<le> \<lfloor>(of_int k :: rat) / of_int (2 ^ d)\<rfloor>" by linarith
    with round_half_even_bounds [of "of_int k / of_int (2 ^ d)"] have "1 \<le> m"
      unfolding m_def by linarith
    then have "0 < m * 2 ^ d" by simp
    with True show ?thesis by simp
  next
    case False
    with k0 have neg: "k < 0" by simp
    then have "(of_int k :: rat) / of_int (2 ^ d) = - (of_int a / of_int (2 ^ d))"
      by (simp add: a_def)
    with ratio have "(of_int k :: rat) / of_int (2 ^ d) \<le> - 1" by simp
    then have "\<lceil>(of_int k :: rat) / of_int (2 ^ d)\<rceil> \<le> - 1" by linarith
    with round_half_even_bounds [of "of_int k / of_int (2 ^ d)"] have "m \<le> - 1"
      unfolding m_def by linarith
    then have "m * 2 ^ d < 0" by (simp add: mult_less_0_iff)
    with neg show ?thesis by simp
  qed
  have r: "(of_int m :: rat) * of_int (2 ^ d) = of_int (m * 2 ^ d)"
    by simp
  have "round64 (of_int k)
      = (if of_int (2 ^ 1024) \<le> \<bar>of_int (m * 2 ^ d) :: rat\<bar>
         then (if 0 < k then PosInf else NegInf) else Fin (of_int (m * 2 ^ d)))"
    using k0
    by (simp only: round64_def Let_def bin e p m_def [symmetric] r of_int_eq_0_iff if_False
        of_int_0_less_iff)
  with sg show ?thesis by blast
qed

lemma round64_int_cases:
  "round64 (of_int k) = PosInf \<and> 0 < k
   \<or> round64 (of_int k) = NegInf \<and> k < 0
   \<or> (\<exists>k'. round64 (of_int k) = Fin (of_int k') \<and> sgn k' = sgn k)"
proof (cases "\<bar>k\<bar> < 2 ^ 53")
  case True
  then show ?thesis using round64_of_int [of k] by blast
next
  case False
  then have big: "2 ^ 53 \<le> \<bar>k\<bar>" by simp
  then have k0: "k \<noteq> 0" by auto
  from round64_large_int [OF big] obtain k' where k': "sgn k' = sgn k"
    and eq: "round64 (of_int k)
        = (if of_int (2 ^ 1024) \<le> \<bar>of_int k' :: rat\<bar> then (if 0 < k then PosInf else NegInf)
           else Fin (of_int k'))"
    by blast
  show ?thesis
  proof (cases "of_int (2 ^ 1024) \<le> \<bar>of_int k' :: rat\<bar>")
    case True
    with eq k0 show ?thesis by (cases "0 < k") simp_all
  next
    case False
    with eq k' show ?thesis by auto
  qed
qed

lemma whole_round64: "whole (round64 (of_int k))"
  using round64_int_cases [of k] by auto

lemma whole_cases:
  "whole x \<Longrightarrow> x = NaN \<or> x = PosInf \<or> x = NegInf \<or> (\<exists>k. x = Fin (of_int k))"
  by (cases x) (auto intro: sym)

lemma whole_js_int: "whole (js_int i)"
  by (simp add: js_int_def whole_round64)

lemma whole_js_add:
  assumes "whole x" and "whole y"
  shows "whole (js_add x y)"
proof -
  have "whole (js_add (Fin (of_int a)) (Fin (of_int b)))" for a b
    using whole_round64 [of "a + b"] by simp
  with whole_cases [OF assms(1)] whole_cases [OF assms(2)] show ?thesis
    by (elim disjE exE) simp_all
qed

lemma whole_js_sub:
  assumes "whole x" and "whole y"
  shows "whole (js_sub x y)"
proof -
  have "whole (js_sub (Fin (of_int a)) (Fin (of_int b)))" for a b
    using whole_round64 [of "a - b"] by simp
  with whole_cases [OF assms(1)] whole_cases [OF assms(2)] show ?thesis
    by (elim disjE exE) simp_all
qed

lemma number_to_string_whole:
  "whole x \<Longrightarrow> number_to_string big dec x = number_to_string big dec' x"
  by (cases x) simp_all

lemma zero_divisor_not_finite: "\<not> is_finite (js_div x (Fin 0))"
  by (cases x) simp_all

lemma round64_by_zero:
  "js_div (round64 (of_int j)) (Fin 0)
     = (if j = 0 then NaN else if 0 < j then PosInf else NegInf)"
  using round64_int_cases [of j] by (auto simp: sgn_if split: if_splits)

lemma times_100_by_zero:
  assumes "whole x"
  shows "js_div (js_mul (Fin 100) x) (Fin 0)
           = (case x of Fin q \<Rightarrow> (if q = 0 then NaN else if 0 < q then PosInf else NegInf)
              | v \<Rightarrow> v)"
proof -
  have "js_div (js_mul (Fin 100) (Fin (of_int k))) (Fin 0)
          = (if k = 0 then NaN else if 0 < k then PosInf else NegInf)" for k
    using round64_by_zero [of "100 * k"] by simp
  with whole_cases [OF assms] show ?thesis
    by (elim disjE exE) simp_all
qed

lemma sign_of_js_int:
  "(case js_int k of Fin q \<Rightarrow> (if q = 0 then NaN else if 0 < q then PosInf else NegInf)
    | v \<Rightarrow> v)
     = (if k = 0 then NaN else if 0 < k then PosInf else NegInf)"
  using round64_int_cases [of k] by (auto simp: js_int_def sgn_if split: if_splits)

lemma js_int_zero: "js_int 0 = Fin 0"
  by (simp add: js_int_def round64_def)


section \<open>Percentages of the progress bar\<close>

lemma js_int_exact: "\<bar>k\<bar> < 2 ^ 53 \<Longrightarrow> js_int k = Fin (of_int k)"
  by (simp add: js_int_def round64_of_int)

lemma js_add_exact:
  "\<bar>a + b\<bar> < 2 ^ 53 \<Longrightarrow> js_add (Fin (of_int a)) (Fin (of_int b)) = Fin (of_int (a + b))"
  using round64_of_int [of "a + b"] by simp

lemma js_sub_exact:
  "\<bar>a - b\<bar> < 2 ^ 53 \<Longrightarrow> js_sub (Fin (of_int a)) (Fin (of_int b)) = Fin (of_int (a - b))"
  using round64_of_int [of "a - b"] by simp

lemma js_mul_exact:
  "\<bar>100 * a\<bar> < 2 ^ 53 \<Longrightarrow> js_mul (Fin 100) (Fin (of_int a)) = Fin (of_int (100 * a))"
  using round64_of_int [of "100 * a"] by simp

lemma js_percent:
  assumes "n \<noteq> 0" and "\<bar>100 * a\<bar> < 2 ^ 53"
  shows "js_div (js_mul (Fin 100) (Fin (of_int a))) (Fin (of_int n))
           = round64 (100 * of_int a / of_int n)"
proof -
  have "js_mul (Fin 100) (Fin (of_int a)) = Fin (of_int (100 * a))"
    using assms(2) by (rule js_mul_exact)
  then show ?thesis
    using assms(1) by (simp del: js_mul.simps)
qed

lemma small_sums:
  fixes n c f r s N C F R S P :: int
  assumes "100 * (N + C + F + R + S) < P"
    and "- N \<le> n" "n \<le> N" "- C \<le> c" "c \<le> C" "- F \<le> f" "f \<le> F"
    and "- R \<le> r" "r \<le> R" "- S \<le> s" "s \<le> S"
  shows "\<bar>n\<bar> < P \<and> \<bar>c\<bar> < P \<and> \<bar>f\<bar> < P \<and> \<bar>r\<bar> < P \<and> \<bar>s\<bar> < P
    \<and> \<bar>s + r\<bar> < P \<and> \<bar>r + s\<bar> < P \<and> \<bar>s + r + c\<bar> < P \<and> \<bar>s + r + c + f\<bar> < P
    \<and> \<bar>n - (s + r + c + f)\<bar> < P
    \<and> \<bar>100 * c\<bar> < P \<and> \<bar>100 * f\<bar> < P \<and> \<bar>100 * r\<bar> < P \<and> \<bar>100 * s\<bar> < P
    \<and> \<bar>100 * (n - (s + r + c + f))\<bar> < P"
proof -
  define T where "T = N + C + F + R + S"
  have nonneg: "0 \<le> N" "0 \<le> C" "0 \<le> F" "0 \<le> R" "0 \<le> S"
    using assms by linarith+
  then have T: "0 \<le> T" "N \<le> T" "C \<le> T" "F \<le> T" "R \<le> T" "S \<le> T"
    "S + R \<le> T" "S + R + C \<le> T" "S + R + C + F \<le> T"
    by (simp_all add: T_def)
  from assms(1) have TP: "100 * T < P"
    by (simp add: T_def)
  have a: "\<bar>x\<bar> < P" if "- X \<le> x" "x \<le> X" "X \<le> T" for x X
    using that T(1) TP by linarith
  have h: "\<bar>100 * x\<bar> < P" if "- X \<le> x" "x \<le> X" "X \<le> T" for x X
    using that T(1) TP by linarith
  have o: "- T \<le> n - (s + r + c + f)" "n - (s + r + c + f) \<le> T"
    using assms(2-) by (simp_all add: T_def)
  have sr: "- (S + R) \<le> s + r" "s + r \<le> S + R" "- (S + R) \<le> r + s" "r + s \<le> S + R"
    "- (S + R + C) \<le> s + r + c" "s + r + c \<le> S + R + C"
    "- (S + R + C + F) \<le> s + r + c + f" "s + r + c + f \<le> S + R + C + F"
    using assms(2-) by simp_all
  show ?thesis
    using a [OF assms(2,3) T(2)] a [OF assms(4,5) T(3)] a [OF assms(6,7) T(4)]
      a [OF assms(8,9) T(5)] a [OF assms(10,11) T(6)]
      a [OF sr(1,2) T(7)] a [OF sr(3,4) T(7)] a [OF sr(5,6) T(8)] a [OF sr(7,8) T(9)]
      a [OF o order_refl]
      h [OF assms(4,5) T(3)] h [OF assms(6,7) T(4)] h [OF assms(8,9) T(5)]
      h [OF assms(10,11) T(6)] h [OF o order_refl]
    by blast
qed

text \<open>
  While no intermediate result leaves the range in which every integer is a Number, the
  function computes with the integers themselves and rounds the five quotients only.
\<close>

lemma formatprogress_locals_exact:
  assumes n: "njobs pj \<noteq> 0"
    and bound: "100 * (\<bar>njobs pj\<bar> + \<bar>num_completed pj\<bar> + \<bar>num_failed pj\<bar> + \<bar>num_running pj\<bar>
                  + \<bar>num_submitted pj\<bar>) < 2 ^ 53"
  shows "formatprogress_locals pj
    = \<lparr>striped = (if num_running pj + num_submitted pj > 0
                  then ''progress-bar-striped active'' else []),
       percent_completed = round64 (100 * of_int (num_completed pj) / of_int (njobs pj)),
       percent_failed = round64 (100 * of_int (num_failed pj) / of_int (njobs pj)),
       percent_running = round64 (100 * of_int (num_running pj) / of_int (njobs pj)),
       percent_submitted = round64 (100 * of_int (num_submitted pj) / of_int (njobs pj)),
       num_other = Fin (of_int (njobs pj - (num_submitted pj + num_running pj
                                            + num_completed pj + num_failed pj))),
       percent_other = round64 (100 * of_int (njobs pj - (num_submitted pj + num_running pj
                                  + num_completed pj + num_failed pj)) / of_int (njobs pj))\<rparr>"
proof -
  let ?n = "njobs pj"
  let ?c = "num_completed pj"
  let ?f = "num_failed pj"
  let ?r = "num_running pj"
  let ?s = "num_submitted pj"
  let ?o = "?n - (?s + ?r + ?c + ?f)"
  define N C F R S where abs: "N = \<bar>?n\<bar>" "C = \<bar>?c\<bar>" "F = \<bar>?f\<bar>" "R = \<bar>?r\<bar>" "S = \<bar>?s\<bar>"
  have lim: "100 * (N + C + F + R + S) < 2 ^ 53"
    using bound by (simp add: abs)
  have rng: "- N \<le> ?n" "?n \<le> N" "- C \<le> ?c" "?c \<le> C" "- F \<le> ?f" "?f \<le> F"
    "- R \<le> ?r" "?r \<le> R" "- S \<le> ?s" "?s \<le> S"
    by (simp_all add: abs)
  have all: "\<bar>?n\<bar> < 2 ^ 53 \<and> \<bar>?c\<bar> < 2 ^ 53 \<and> \<bar>?f\<bar> < 2 ^ 53 \<and> \<bar>?r\<bar> < 2 ^ 53
    \<and> \<bar>?s\<bar> < 2 ^ 53 \<and> \<bar>?s + ?r\<bar> < 2 ^ 53 \<and> \<bar>?r + ?s\<bar> < 2 ^ 53
    \<and> \<bar>?s + ?r + ?c\<bar> < 2 ^ 53 \<and> \<bar>?s + ?r + ?c + ?f\<bar> < 2 ^ 53
    \<and> \<bar>?n - (?s + ?r + ?c + ?f)\<bar> < 2 ^ 53
    \<and> \<bar>100 * ?c\<bar> < 2 ^ 53 \<and> \<bar>100 * ?f\<bar> < 2 ^ 53 \<and> \<bar>100 * ?r\<bar> < 2 ^ 53
    \<and> \<bar>100 * ?s\<bar> < 2 ^ 53 \<and> \<bar>100 * ?o\<bar> < 2 ^ 53"
    using lim rng by (rule small_sums)
  then have small: "\<bar>?n\<bar> < 2 ^ 53" "\<bar>?c\<bar> < 2 ^ 53" "\<bar>?f\<bar> < 2 ^ 53" "\<bar>?r\<bar> < 2 ^ 53"
    "\<bar>?s\<bar> < 2 ^ 53" "\<bar>?s + ?r\<bar> < 2 ^ 53" "\<bar>?r + ?s\<bar> < 2 ^ 53"
    "\<bar>?s + ?r + ?c\<bar> < 2 ^ 53" "\<bar>?s + ?r + ?c + ?f\<bar> < 2 ^ 53"
    "\<bar>?n - (?s + ?r + ?c + ?f)\<bar> < 2 ^ 53"
    by blast+
  from all have prod: "\<bar>100 * ?c\<bar> < 2 ^ 53" "\<bar>100 * ?f\<bar> < 2 ^ 53" "\<bar>100 * ?r\<bar> < 2 ^ 53"
    "\<bar>100 * ?s\<bar> < 2 ^ 53" "\<bar>100 * ?o\<bar> < 2 ^ 53"
    by blast+
  have ints: "js_int ?n = Fin (of_int ?n)" "js_int ?c = Fin (of_int ?c)"
    "js_int ?f = Fin (of_int ?f)" "js_int ?r = Fin (of_int ?r)" "js_int ?s = Fin (of_int ?s)"
    using small by (simp_all add: js_int_exact)
  have sr: "js_add (Fin (of_int ?s)) (Fin (of_int ?r)) = Fin (of_int (?s + ?r))"
    using small(6) by (rule js_add_exact)
  have rs: "js_add (Fin (of_int ?r)) (Fin (of_int ?s)) = Fin (of_int (?r + ?s))"
    using small(7) by (rule js_add_exact)
  have src: "js_add (Fin (of_int (?s + ?r))) (Fin (of_int ?c)) = Fin (of_int (?s + ?r + ?c))"
    using small(8) by (rule js_add_exact)
  have srcf: "js_add (Fin (of_int (?s + ?r + ?c))) (Fin (of_int ?f))
      = Fin (of_int (?s + ?r + ?c + ?f))"
    using small(9) by (rule js_add_exact)
  have other: "js_sub (Fin (of_int ?n)) (Fin (of_int (?s + ?r + ?c + ?f))) = Fin (of_int ?o)"
    using small(10) by (rule js_sub_exact)
  have gt: "js_gt (Fin (of_int (?r + ?s))) (Fin 0) = (?r + ?s > 0)"
    by (simp del: of_int_add)
  have pc: "js_div (js_mul (Fin 100) (Fin (of_int ?c))) (Fin (of_int ?n))
      = round64 (100 * of_int ?c / of_int ?n)"
    using n prod(1) by (rule js_percent)
  have pf: "js_div (js_mul (Fin 100) (Fin (of_int ?f))) (Fin (of_int ?n))
      = round64 (100 * of_int ?f / of_int ?n)"
    using n prod(2) by (rule js_percent)
  have pr: "js_div (js_mul (Fin 100) (Fin (of_int ?r))) (Fin (of_int ?n))
      = round64 (100 * of_int ?r / of_int ?n)"
    using n prod(3) by (rule js_percent)
  have ps: "js_div (js_mul (Fin 100) (Fin (of_int ?s))) (Fin (of_int ?n))
      = round64 (100 * of_int ?s / of_int ?n)"
    using n prod(4) by (rule js_percent)
  have po: "js_div (js_mul (Fin 100) (Fin (of_int ?o))) (Fin (of_int ?n))
      = round64 (100 * of_int ?o / of_int ?n)"
    using n prod(5) by (rule js_percent)
  show ?thesis
    by (simp only: formatprogress_locals_def Let_def ints sr rs src srcf other gt pc pf pr ps po)
qed

lemma round64_whole_quotient:
  assumes "n \<noteq> 0" and "n dvd a" and "\<bar>a div n\<bar> < 2 ^ 53"
  shows "round64 (of_int a / of_int n) = Fin (of_int (a div n))"
proof -
  from assms(2) obtain m where m: "a = n * m" ..
  with assms(1) have "(of_int a :: rat) / of_int n = of_int (a div n)"
    by simp
  with assms(3) show ?thesis
    by (simp only: round64_of_int)
qed

lemma percent_exact:
  assumes "0 < n" and "0 \<le> c" and "c \<le> n" and "n dvd 100 * c"
  shows "round64 (100 * of_int c / of_int n) = Fin (of_int (100 * c div n))"
proof -
  have "0 \<le> 100 * c div n"
    using assms by (simp add: pos_imp_zdiv_nonneg_iff)
  moreover have "100 * c div n \<le> 100 * n div n"
    using assms by (intro zdiv_mono1) simp_all
  ultimately have "\<bar>100 * c div n\<bar> < 2 ^ 53"
    using assms(1) by simp
  with assms have "round64 (of_int (100 * c) / of_int n) = Fin (of_int (100 * c div n))"
    by (intro round64_whole_quotient) simp_all
  then show ?thesis by simp
qed

lemma quotients_sum:
  "0 < n \<Longrightarrow>
   100 * of_int c / of_int n + 100 * of_int f / of_int n + 100 * of_int r / of_int n
     + 100 * of_int s / of_int n + 100 * of_int (n - (s + r + c + f)) / of_int n = (100::rat)"
  by (simp add: field_simps)

lemma percent_error:
  assumes "0 < n" and "0 \<le> x" and "x \<le> n"
  shows "\<exists>p. round64 (100 * of_int x / of_int n) = Fin p
           \<and> \<bar>p - 100 * of_int x / of_int n\<bar> \<le> 1 / 2 ^ 47"
proof -
  have "100 * (of_int x :: rat) / of_int n \<le> 100"
    using assms by (simp add: divide_le_eq)
  then have "0 \<le> 100 * (of_int x :: rat) / of_int n" "100 * (of_int x :: rat) / of_int n < 2 ^ 7"
    using assms by simp_all
  then show ?thesis
    by (rule round64_error)
qed

lemma round64_zero: "round64 0 = Fin 0"
  by (simp add: round64_def)

lemma round64_50_3: "round64 (50 / 3) = Fin (4691249611844267 / 281474976710656)"
  by code_simp

lemma round64_200_3: "round64 (200 / 3) = Fin (4691249611844267 / 70368744177664)"
  by code_simp

lemma round64_sum1:
  "round64 (4691249611844267 / 281474976710656) = Fin (4691249611844267 / 281474976710656)"
  by code_simp

lemma round64_sum2:
  "round64 (23456248059221335 / 281474976710656) = Fin (5864062014805334 / 70368744177664)"
  by code_simp

lemma round64_sum3:
  "round64 (28147497671065603 / 281474976710656) = Fin (100 + 1 / 2 ^ 46)"
  by code_simp

lemma round64_product: "round64 36028797018964100 = Fin 36028797018964096"
  by code_simp

lemma round64_quotient:
  "round64 (36028797018964096 / 360287970189641) = Fin (100 - 1 / 2 ^ 46)"
  by code_simp

text \<open>
  Claim C1, as amended. Take a record with \<open>njobs > 0\<close> whose four counts sum to at most
  \<open>njobs\<close>, and small enough for the integers of the computation to be Numbers: 100
  times the sum of \<open>njobs\<close> and the magnitudes of the four counts is below \<open>2^53\<close>. Then
  \<open>formatprogress\<close> computes \<open>num_other\<close> as \<open>njobs\<close> minus the four counts, and each of
  the five percentages as \<open>100 * count / njobs\<close> rounded to the nearest binary64 value.
  The quotients before rounding sum to exactly 100. When no count is negative, the
  percentages themselves sum to 100 up to \<open>5 / 2^47\<close>, and to exactly 100 if moreover
  \<open>njobs\<close> divides each \<open>100 * count\<close>. For \<open>njobs = 10\<close> and counts 3, 2, 1, 1 the
  result is \<open>other = 3\<close> and the percentages 30, 20, 10, 10, 30.
\<close>

theorem formatprogress_percentages:
  assumes "0 < njobs pj"
    and "num_completed pj + num_failed pj + num_running pj + num_submitted pj \<le> njobs pj"
    and "100 * (njobs pj + \<bar>num_completed pj\<bar> + \<bar>num_failed pj\<bar> + \<bar>num_running pj\<bar>
           + \<bar>num_submitted pj\<bar>) < 2 ^ 53"
  shows "num_other (formatprogress_locals pj)
           = Fin (of_int (njobs pj - (num_submitted pj + num_running pj + num_completed pj
                                     + num_failed pj)))
     \<and> percent_completed (formatprogress_locals pj)
           = round64 (100 * of_int (num_completed pj) / of_int (njobs pj))
     \<and> percent_failed (formatprogress_locals pj)
           = round64 (100 * of_int (num_failed pj) / of_int (njobs pj))
     \<and> percent_running (formatprogress_locals pj)
           = round64 (100 * of_int (num_running pj) / of_int (njobs pj))
     \<and> percent_submitted (formatprogress_locals pj)
           = round64 (100 * of_int (num_submitted pj) / of_int (njobs pj))
     \<and> percent_other (formatprogress_locals pj)
           = round64 (100 * of_int (njobs pj - (num_submitted pj + num_running pj
                                + num_completed pj + num_failed pj)) / of_int (njobs pj))
     \<and> 100 * of_int (num_completed pj) / of_int (njobs pj)
         + 100 * of_int (num_failed pj) / of_int (njobs pj)
         + 100 * of_int (num_running pj) / of_int (njobs pj)
         + 100 * of_int (num_submitted pj) / of_int (njobs pj)
         + 100 * of_int (njobs pj - (num_submitted pj + num_running pj + num_completed pj
                           + num_failed pj)) / of_int (njobs pj) = (100::rat)
     \<and> (0 \<le> num_completed pj \<and> 0 \<le> num_failed pj \<and> 0 \<le> num_running pj
          \<and> 0 \<le> num_submitted pj
        \<longrightarrow> (\<exists>p. exact_sum [percent_completed (formatprogress_locals pj),
                             percent_failed (formatprogress_locals pj),
                             percent_running (formatprogress_locals pj),
                             percent_submitted (formatprogress_locals pj),
                             percent_other (formatprogress_locals pj)] = Some p
                 \<and> \<bar>p - 100\<bar> \<le> 5 / 2 ^ 47))
     \<and> (0 \<le> num_completed pj \<and> 0 \<le> num_failed pj \<and> 0 \<le> num_running pj
          \<and> 0 \<le> num_submitted pj
          \<and> njobs pj dvd 100 * num_completed pj \<and> njobs pj dvd 100 * num_failed pj
          \<and> njobs pj dvd 100 * num_running pj \<and> njobs pj dvd 100 * num_submitted pj
        \<longrightarrow> exact_sum [percent_completed (formatprogress_locals pj),
                        percent_failed (formatprogress_locals pj),
                        percent_running (formatprogress_locals pj),
                        percent_submitted (formatprogress_locals pj),
                        percent_other (formatprogress_locals pj)] = Some 100)
     \<and> formatprogress_locals
           \<lparr>id' = i, request_id = q, status = s, reschedule = f, njobs = 10,
            num_completed = 3, num_failed = 2, num_running = 1, num_submitted = 1\<rparr>
         = \<lparr>striped = ''progress-bar-striped active'',
            percent_completed = Fin 30, percent_failed = Fin 20, percent_running = Fin 10,
            percent_submitted = Fin 10, num_other = Fin 3, percent_other = Fin 30\<rparr>"
proof -
  let ?l = "formatprogress_locals pj"
  let ?n = "njobs pj"
  let ?c = "num_completed pj"
  let ?f = "num_failed pj"
  let ?r = "num_running pj"
  let ?s = "num_submitted pj"
  let ?o = "?n - (?s + ?r + ?c + ?f)"
  have n: "0 < ?n" and le: "?c + ?f + ?r + ?s \<le> ?n"
    using assms by simp_all
  have n0: "?n \<noteq> 0" using n by simp
  have bound: "100 * (\<bar>?n\<bar> + \<bar>?c\<bar> + \<bar>?f\<bar> + \<bar>?r\<bar> + \<bar>?s\<bar>) < 2 ^ 53"
    using assms(3) n by simp
  note loc = formatprogress_locals_exact [OF n0 bound]
  have g1: "num_other ?l = Fin (of_int ?o)"
    by (simp only: loc progress_locals.simps)
  have g2: "percent_completed ?l = round64 (100 * of_int ?c / of_int ?n)"
    by (simp only: loc progress_locals.simps)
  have g3: "percent_failed ?l = round64 (100 * of_int ?f / of_int ?n)"
    by (simp only: loc progress_locals.simps)
  have g4: "percent_running ?l = round64 (100 * of_int ?r / of_int ?n)"
    by (simp only: loc progress_locals.simps)
  have g5: "percent_submitted ?l = round64 (100 * of_int ?s / of_int ?n)"
    by (simp only: loc progress_locals.simps)
  have g6: "percent_other ?l = round64 (100 * of_int ?o / of_int ?n)"
    by (simp only: loc progress_locals.simps)
  have g7: "100 * of_int ?c / of_int ?n + 100 * of_int ?f / of_int ?n
      + 100 * of_int ?r / of_int ?n + 100 * of_int ?s / of_int ?n
      + 100 * of_int ?o / of_int ?n = (100::rat)"
    using n by (rule quotients_sum)
  have g8: "exact_sum [percent_completed ?l, percent_failed ?l, percent_running ?l,
                       percent_submitted ?l, percent_other ?l] = Some 100"
    if hyp: "0 \<le> ?c \<and> 0 \<le> ?f \<and> 0 \<le> ?r \<and> 0 \<le> ?s
        \<and> ?n dvd 100 * ?c \<and> ?n dvd 100 * ?f \<and> ?n dvd 100 * ?r \<and> ?n dvd 100 * ?s"
  proof -
    from hyp have nonneg: "0 \<le> ?c" "0 \<le> ?f" "0 \<le> ?r" "0 \<le> ?s"
      and dvd: "?n dvd 100 * ?c" "?n dvd 100 * ?f" "?n dvd 100 * ?r" "?n dvd 100 * ?s"
      by simp_all
    have o: "0 \<le> ?o" "?o \<le> ?n"
      using le nonneg by simp_all
    have bounds: "?c \<le> ?n" "?f \<le> ?n" "?r \<le> ?n" "?s \<le> ?n"
      using le nonneg by simp_all
    from dvd obtain kc kf kr ks
      where k: "100 * ?c = ?n * kc" "100 * ?f = ?n * kf" "100 * ?r = ?n * kr"
        "100 * ?s = ?n * ks"
      unfolding dvd_def by blast
    have ko: "100 * ?o = ?n * (100 - (ks + kr + kc + kf))"
      using k by (simp add: algebra_simps)
    then have od: "?n dvd 100 * ?o"
      unfolding dvd_def by blast
    have divs: "100 * ?c div ?n = kc" "100 * ?f div ?n = kf" "100 * ?r div ?n = kr"
      "100 * ?s div ?n = ks" "100 * ?o div ?n = 100 - (ks + kr + kc + kf)"
      using n by (simp_all only: k ko) simp_all
    have vals: "percent_completed ?l = Fin (of_int kc)" "percent_failed ?l = Fin (of_int kf)"
      "percent_running ?l = Fin (of_int kr)" "percent_submitted ?l = Fin (of_int ks)"
      "percent_other ?l = Fin (of_int (100 - (ks + kr + kc + kf)))"
      unfolding g2 g3 g4 g5 g6
      using percent_exact [OF n nonneg(1) bounds(1) dvd(1)]
        percent_exact [OF n nonneg(2) bounds(2) dvd(2)]
        percent_exact [OF n nonneg(3) bounds(3) dvd(3)]
        percent_exact [OF n nonneg(4) bounds(4) dvd(4)]
        percent_exact [OF n o od]
      unfolding divs by blast+
    show ?thesis
      unfolding vals by simp
  qed
  have g10: "\<exists>p. exact_sum [percent_completed ?l, percent_failed ?l, percent_running ?l,
                           percent_submitted ?l, percent_other ?l] = Some p
               \<and> \<bar>p - 100\<bar> \<le> 5 / 2 ^ 47"
    if hyp: "0 \<le> ?c \<and> 0 \<le> ?f \<and> 0 \<le> ?r \<and> 0 \<le> ?s"
  proof -
    from hyp have nonneg: "0 \<le> ?c" "0 \<le> ?f" "0 \<le> ?r" "0 \<le> ?s"
      by simp_all
    have o: "0 \<le> ?o" "?o \<le> ?n"
      using le nonneg by simp_all
    have bounds: "?c \<le> ?n" "?f \<le> ?n" "?r \<le> ?n" "?s \<le> ?n"
      using le nonneg by simp_all
    obtain pc where pc: "percent_completed ?l = Fin pc"
      "\<bar>pc - 100 * of_int ?c / of_int ?n\<bar> \<le> 1 / 2 ^ 47"
      unfolding g2 using percent_error [OF n nonneg(1) bounds(1)] by blast
    obtain pf where pf: "percent_failed ?l = Fin pf"
      "\<bar>pf - 100 * of_int ?f / of_int ?n\<bar> \<le> 1 / 2 ^ 47"
      unfolding g3 using percent_error [OF n nonneg(2) bounds(2)] by blast
    obtain pr where pr: "percent_running ?l = Fin pr"
      "\<bar>pr - 100 * of_int ?r / of_int ?n\<bar> \<le> 1 / 2 ^ 47"
      unfolding g4 using percent_error [OF n nonneg(3) bounds(3)] by blast
    obtain ps where ps: "percent_submitted ?l = Fin ps"
      "\<bar>ps - 100 * of_int ?s / of_int ?n\<bar> \<le> 1 / 2 ^ 47"
      unfolding g5 using percent_error [OF n nonneg(4) bounds(4)] by blast
    obtain po where po: "percent_other ?l = Fin po"
      "\<bar>po - 100 * of_int ?o / of_int ?n\<bar> \<le> 1 / 2 ^ 47"
      unfolding g6 using percent_error [OF n o] by blast
    have sum: "exact_sum [percent_completed ?l, percent_failed ?l, percent_running ?l,
                          percent_submitted ?l, percent_other ?l]
                 = Some (pc + (pf + (pr + (ps + (po + 0)))))"
      unfolding pc(1) pf(1) pr(1) ps(1) po(1) by simp
    have "\<bar>pc + (pf + (pr + (ps + (po + 0)))) - 100\<bar> \<le> 5 / 2 ^ 47"
      using pc(2) pf(2) pr(2) ps(2) po(2) g7 by linarith
    with sum show ?thesis by blast
  qed
  have g9: "formatprogress_locals
           \<lparr>id' = i, request_id = q, status = s, reschedule = f, njobs = 10,
            num_completed = 3, num_failed = 2, num_running = 1, num_submitted = 1\<rparr>
         = \<lparr>striped = ''progress-bar-striped active'',
            percent_completed = Fin 30, percent_failed = Fin 20, percent_running = Fin 10,
            percent_submitted = Fin 10, num_other = Fin 3, percent_other = Fin 30\<rparr>"
    using formatprogress_locals_exact
      [of "\<lparr>id' = i, request_id = q, status = s, reschedule = f, njobs = 10,
            num_completed = 3, num_failed = 2, num_running = 1, num_submitted = 1\<rparr>"]
      round64_whole_quotient [of 10 300] round64_whole_quotient [of 10 200]
      round64_whole_quotient [of 10 100]
    by simp
  from g8 have g8': "0 \<le> ?c \<and> 0 \<le> ?f \<and> 0 \<le> ?r \<and> 0 \<le> ?s
        \<and> ?n dvd 100 * ?c \<and> ?n dvd 100 * ?f \<and> ?n dvd 100 * ?r \<and> ?n dvd 100 * ?s
      \<longrightarrow> exact_sum [percent_completed ?l, percent_failed ?l, percent_running ?l,
                       percent_submitted ?l, percent_other ?l] = Some 100"
    by (rule impI)
  from g10 have g10': "0 \<le> ?c \<and> 0 \<le> ?f \<and> 0 \<le> ?r \<and> 0 \<le> ?s
      \<longrightarrow> (\<exists>p. exact_sum [percent_completed ?l, percent_failed ?l, percent_running ?l,
                             percent_submitted ?l, percent_other ?l] = Some p
                 \<and> \<bar>p - 100\<bar> \<le> 5 / 2 ^ 47)"
    by (rule impI)
  show ?thesis
    by (intro conjI g1 g2 g3 g4 g5 g6 g7 g10' g8' g9)
qed

theorem formatprogress_percentages_witness:
  "(0::int) < 10 \<and> (3::int) + 2 + 1 + 1 \<le> 10
   \<and> (100::int) * (10 + \<bar>3\<bar> + \<bar>2\<bar> + \<bar>1\<bar> + \<bar>1\<bar>) < 2 ^ 53
   \<and> formatprogress_locals
        \<lparr>id' = 7, request_id = 3, status = ''Running'', reschedule = False, njobs = 10,
         num_completed = 3, num_failed = 2, num_running = 1, num_submitted = 1\<rparr>
      = \<lparr>striped = ''progress-bar-striped active'',
         percent_completed = Fin 30, percent_failed = Fin 20, percent_running = Fin 10,
         percent_submitted = Fin 10, num_other = Fin 3, percent_other = Fin 30\<rparr>
   \<and> exact_sum [Fin 30, Fin 20, Fin 10, Fin 10, Fin 30] = Some 100"
  using formatprogress_percentages
    [of "\<lparr>id' = 7, request_id = 3, status = ''Running'', reschedule = False, njobs = 10,
         num_completed = 3, num_failed = 2, num_running = 1, num_submitted = 1\<rparr>"
        7 3 "''Running''" False]
  by simp

text \<open>
  As claim C1 states it, the five percentages would be \<open>100 * count / njobs\<close> and sum
  to exactly 100 for every such record. For \<open>njobs = 6\<close> with one job running and four
  submitted they are 0, 0, 16.666666666666668, 66.66666666666667 and
  16.666666666666668, which sum to \<open>100 + 2\<^sup>-\<^sup>4\<^sup>7\<close>; added from left to right
  as Numbers they give 100.00000000000001, that is \<open>100 + 2\<^sup>-\<^sup>4\<^sup>6\<close>. For
  \<open>njobs = num_completed = 360287970189641\<close> the product \<open>100 * num_completed\<close> is
  rounded before the division and the percentage is 99.99999999999999, that is
  \<open>100 - 2\<^sup>-\<^sup>4\<^sup>6\<close>.
\<close>

theorem formatprogress_percentages_counterexample:
  "exact_sum
     [percent_completed (formatprogress_locals
        \<lparr>id' = 7, request_id = 3, status = ''Running'', reschedule = False, njobs = 6,
         num_completed = 0, num_failed = 0, num_running = 1, num_submitted = 4\<rparr>),
      percent_failed (formatprogress_locals
        \<lparr>id' = 7, request_id = 3, status = ''Running'', reschedule = False, njobs = 6,
         num_completed = 0, num_failed = 0, num_running = 1, num_submitted = 4\<rparr>),
      percent_running (formatprogress_locals
        \<lparr>id' = 7, request_id = 3, status = ''Running'', reschedule = False, njobs = 6,
         num_completed = 0, num_failed = 0, num_running = 1, num_submitted = 4\<rparr>),
      percent_submitted (formatprogress_locals
        \<lparr>id' = 7, request_id = 3, status = ''Running'', reschedule = False, njobs = 6,
         num_completed = 0, num_failed = 0, num_running = 1, num_submitted = 4\<rparr>),
      percent_other (formatprogress_locals
        \<lparr>id' = 7, request_id = 3, status = ''Running'', reschedule = False, njobs = 6,
         num_completed = 0, num_failed = 0, num_running = 1, num_submitted = 4\<rparr>)]
     = Some (100 + 1 / 2 ^ 47)
   \<and> (100 + 1 / 2 ^ 47 :: rat) \<noteq> 100
   \<and> js_add (js_add (js_add (js_add
       (percent_completed (formatprogress_locals
          \<lparr>id' = 7, request_id = 3, status = ''Running'', reschedule = False, njobs = 6,
           num_completed = 0, num_failed = 0, num_running = 1, num_submitted = 4\<rparr>))
       (percent_failed (formatprogress_locals
          \<lparr>id' = 7, request_id = 3, status = ''Running'', reschedule = False, njobs = 6,
           num_completed = 0, num_failed = 0, num_running = 1, num_submitted = 4\<rparr>)))
       (percent_running (formatprogress_locals
          \<lparr>id' = 7, request_id = 3, status = ''Running'', reschedule = False, njobs = 6,
           num_completed = 0, num_failed = 0, num_running = 1, num_submitted = 4\<rparr>)))
       (percent_submitted (formatprogress_locals
          \<lparr>id' = 7, request_id = 3, status = ''Running'', reschedule = False, njobs = 6,
           num_completed = 0, num_failed = 0, num_running = 1, num_submitted = 4\<rparr>)))
       (percent_other (formatprogress_locals
          \<lparr>id' = 7, request_id = 3, status = ''Running'', reschedule = False, njobs = 6,
           num_completed = 0, num_failed = 0, num_running = 1, num_submitted = 4\<rparr>))
     = Fin (100 + 1 / 2 ^ 46)
   \<and> percent_completed (formatprogress_locals
        \<lparr>id' = 7, request_id = 3, status = ''Completed'', reschedule = False,
         njobs = 360287970189641, num_completed = 360287970189641, num_failed = 0,
         num_running = 0, num_submitted = 0\<rparr>)
     = Fin (100 - 1 / 2 ^ 46)
   \<and> round64 (100 * 360287970189641 / 360287970189641) = Fin 100"
proof -
  have six: "formatprogress_locals
        \<lparr>id' = 7, request_id = 3, status = ''Running'', reschedule = False, njobs = 6,
         num_completed = 0, num_failed = 0, num_running = 1, num_submitted = 4\<rparr>
      = \<lparr>striped = ''progress-bar-striped active'',
         percent_completed = Fin 0, percent_failed = Fin 0,
         percent_running = Fin (4691249611844267 / 281474976710656),
         percent_submitted = Fin (4691249611844267 / 70368744177664),
         num_other = Fin 1,
         percent_other = Fin (4691249611844267 / 281474976710656)\<rparr>"
    using formatprogress_locals_exact
      [of "\<lparr>id' = 7, request_id = 3, status = ''Running'', reschedule = False, njobs = 6,
         num_completed = 0, num_failed = 0, num_running = 1, num_submitted = 4\<rparr>"]
    by (simp add: round64_zero round64_50_3 round64_200_3)
  have big: "percent_completed (formatprogress_locals
        \<lparr>id' = 7, request_id = 3, status = ''Completed'', reschedule = False,
         njobs = 360287970189641, num_completed = 360287970189641, num_failed = 0,
         num_running = 0, num_submitted = 0\<rparr>)
     = Fin (100 - 1 / 2 ^ 46)"
    using js_int_exact [of 360287970189641]
    by (simp add: formatprogress_locals_def Let_def round64_product round64_quotient)
  have hundred: "round64 (100 * 360287970189641 / 360287970189641) = Fin 100"
    using round64_of_int [of 100] by simp
  show ?thesis
    unfolding six using big hundred
    by (simp add: round64_zero round64_sum1 round64_sum2 round64_sum3)
qed

text \<open>
  Claim C9. For a record with \<open>njobs = 0\<close> every division is carried out and none of the
  five percentages is a finite number: each is NaN where its count is 0 and an infinity
  with the sign of the count otherwise (for the last bar the count is the Number
  \<open>num_other\<close> that the function computed, and a \<open>num_other\<close> that is not finite is
  the percentage itself); they are rendered as \<open>NaN\<close>, \<open>Infinity\<close> or \<open>-Infinity\<close>,
  and the whole markup is the same whatever the decimal form of fractions is.
\<close>

theorem formatprogress_zero_njobs:
  assumes "njobs pj = 0"
  shows "\<not> is_finite (percent_completed (formatprogress_locals pj))
     \<and> \<not> is_finite (percent_failed (formatprogress_locals pj))
     \<and> \<not> is_finite (percent_running (formatprogress_locals pj))
     \<and> \<not> is_finite (percent_submitted (formatprogress_locals pj))
     \<and> \<not> is_finite (percent_other (formatprogress_locals pj))
     \<and> percent_completed (formatprogress_locals pj)
         = (if num_completed pj = 0 then NaN else if 0 < num_completed pj then PosInf else NegInf)
     \<and> percent_failed (formatprogress_locals pj)
         = (if num_failed pj = 0 then NaN else if 0 < num_failed pj then PosInf else NegInf)
     \<and> percent_running (formatprogress_locals pj)
         = (if num_running pj = 0 then NaN else if 0 < num_running pj then PosInf else NegInf)
     \<and> percent_submitted (formatprogress_locals pj)
         = (if num_submitted pj = 0 then NaN
            else if 0 < num_submitted pj then PosInf else NegInf)
     \<and> percent_other (formatprogress_locals pj)
         = (case num_other (formatprogress_locals pj) of
              Fin q \<Rightarrow> (if q = 0 then NaN else if 0 < q then PosInf else NegInf)
            | v \<Rightarrow> v)
     \<and> formatprogress big dec pj = formatprogress big dec' pj"
proof -
  let ?l = "formatprogress_locals pj"
  have zero: "js_int (njobs pj) = Fin 0"
    using assms by (simp add: js_int_zero)
  have pct: "percent_completed ?l = js_div (js_mul (Fin 100) (js_int (num_completed pj))) (Fin 0)"
    "percent_failed ?l = js_div (js_mul (Fin 100) (js_int (num_failed pj))) (Fin 0)"
    "percent_running ?l = js_div (js_mul (Fin 100) (js_int (num_running pj))) (Fin 0)"
    "percent_submitted ?l = js_div (js_mul (Fin 100) (js_int (num_submitted pj))) (Fin 0)"
    "percent_other ?l = js_div (js_mul (Fin 100) (num_other ?l)) (Fin 0)"
    by (simp_all only: formatprogress_locals_def Let_def zero progress_locals.simps)
  have nf: "\<not> is_finite (percent_completed ?l)" "\<not> is_finite (percent_failed ?l)"
    "\<not> is_finite (percent_running ?l)" "\<not> is_finite (percent_submitted ?l)"
    "\<not> is_finite (percent_other ?l)"
    unfolding pct by (rule zero_divisor_not_finite)+
  have count: "js_div (js_mul (Fin 100) (js_int k)) (Fin 0)
      = (if k = 0 then NaN else if 0 < k then PosInf else NegInf)" for k
    using times_100_by_zero [OF whole_js_int, of k] by (simp only: sign_of_js_int)
  have other: "whole (num_other ?l)"
    by (simp only: formatprogress_locals_def Let_def progress_locals.simps
        whole_js_sub whole_js_add whole_js_int)
  have vals: "percent_completed ?l
         = (if num_completed pj = 0 then NaN else if 0 < num_completed pj then PosInf else NegInf)"
    "percent_failed ?l
         = (if num_failed pj = 0 then NaN else if 0 < num_failed pj then PosInf else NegInf)"
    "percent_running ?l
         = (if num_running pj = 0 then NaN else if 0 < num_running pj then PosInf else NegInf)"
    "percent_submitted ?l
         = (if num_submitted pj = 0 then NaN
            else if 0 < num_submitted pj then PosInf else NegInf)"
    "percent_other ?l
         = (case num_other ?l of
              Fin q \<Rightarrow> (if q = 0 then NaN else if 0 < q then PosInf else NegInf)
            | v \<Rightarrow> v)"
    unfolding pct by (simp_all only: count times_100_by_zero [OF other])
  have same: "number_to_string big dec x = number_to_string big dec' x" if "\<not> is_finite x" for x
    using that by (cases x) simp_all
  have label: "number_to_string big dec (js_int k) = number_to_string big dec' (js_int k)" for k
    using whole_js_int by (rule number_to_string_whole)
  have label': "number_to_string big dec (num_other ?l)
      = number_to_string big dec' (num_other ?l)"
    using other by (rule number_to_string_whole)
  have "formatprogress big dec pj = formatprogress big dec' pj"
    unfolding formatprogress_def Let_def
    by (simp only: same [OF nf(1)] same [OF nf(2)] same [OF nf(3)] same [OF nf(4)]
        same [OF nf(5)] label [of "num_completed pj"] label [of "num_failed pj"]
        label [of "num_running pj"] label [of "num_submitted pj"] label')
  with nf vals show ?thesis by blast
qed

theorem formatprogress_zero_njobs_witness:
  "njobs \<lparr>id' = 7, request_id = 3, status = ''Unknown'', reschedule = False, njobs = 0,
      num_completed = 0, num_failed = 0, num_running = 0, num_submitted = 0\<rparr> = 0
   \<and> percent_completed (formatprogress_locals
        \<lparr>id' = 7, request_id = 3, status = ''Unknown'', reschedule = False, njobs = 0,
         num_completed = 0, num_failed = 0, num_running = 0, num_submitted = 0\<rparr>) = NaN
   \<and> percent_other (formatprogress_locals
        \<lparr>id' = 7, request_id = 3, status = ''Unknown'', reschedule = False, njobs = 0,
         num_completed = 0, num_failed = 0, num_running = 0, num_submitted = 0\<rparr>) = NaN
   \<and> \<not> is_finite (percent_running (formatprogress_locals
        \<lparr>id' = 7, request_id = 3, status = ''Unknown'', reschedule = False, njobs = 0,
         num_completed = 0, num_failed = 0, num_running = 0, num_submitted = 0\<rparr>))"
  using formatprogress_zero_njobs
    [of "\<lparr>id' = 7, request_id = 3, status = ''Unknown'', reschedule = False, njobs = 0,
         num_completed = 0, num_failed = 0, num_running = 0, num_submitted = 0\<rparr>"]
  by (simp add: formatprogress_locals_def js_int_zero round64_zero)


section \<open>The refresh timer\<close>

lemma timer_fire_other: "\<not> is_function v \<Longrightarrow> timer_fire v p = p"
  by (cases v) simp_all

lemma timer_fire_timers: "timers (timer_fire v p) = timers p"
proof (cases v)
  case (JFunction f)
  then show ?thesis by (cases f) (simp add: refresh_table_def)
qed simp_all

lemma timer_fire_invocations:
  "invocations (timer_fire v p) = invocations p + (if is_function v then 1 else 0)"
proof (cases v)
  case (JFunction f)
  then show ?thesis by (cases f) (simp add: refresh_table_def)
qed simp_all

lemma fold_fire_timers:
  "timers (fold (\<lambda>(handler, delay). timer_fire handler) ts p) = timers p"
  by (induction ts arbitrary: p) (simp_all add: timer_fire_timers split: prod.splits)

lemma fold_fire_invocations:
  "invocations (fold (\<lambda>(handler, delay). timer_fire handler) ts p)
     = invocations p + length (filter (\<lambda>t. is_function (fst t)) ts)"
  by (induction ts arbitrary: p) (simp_all add: timer_fire_invocations split: prod.splits)

lemma interval_elapsed_timers: "timers ((interval_elapsed ^^ n) p) = timers p"
  by (induction n) (simp_all add: interval_elapsed_def fold_fire_timers)

lemma interval_elapsed_invocations:
  "invocations ((interval_elapsed ^^ n) p)
     = invocations p + n * length (filter (\<lambda>t. is_function (fst t)) (timers p))"
proof (induction n)
  case 0
  then show ?case by simp
next
  case (Suc n)
  have "invocations (interval_elapsed ((interval_elapsed ^^ n) p))
          = invocations ((interval_elapsed ^^ n) p)
            + length (filter (\<lambda>t. is_function (fst t)) (timers p))"
    by (simp add: interval_elapsed_def fold_fire_invocations fold_fire_timers
        interval_elapsed_timers)
  with Suc show ?case by simp
qed

lemma interval_elapsed_idle:
  assumes "filter (\<lambda>t. is_function (fst t)) (timers p) = []"
  shows "(interval_elapsed ^^ n) p = p"
proof -
  have fire: "fold (\<lambda>(handler, delay). timer_fire handler) ts q = q"
    if "filter (\<lambda>t. is_function (fst t)) ts = []" for ts q
    using that
  proof (induction ts arbitrary: q)
    case Nil
    then show ?case by simp
  next
    case (Cons t ts)
    then show ?case
      by (cases "is_function (fst t)") (simp_all add: timer_fire_other case_prod_beta)
  qed
  show ?thesis
    by (induction n) (simp_all add: interval_elapsed_def fire assms)
qed

text \<open>
  Had the function itself been given to the timer, every elapsed delay would call it.
\<close>

lemma scheduled_function_fires:
  "invocations ((interval_elapsed ^^ n) (setInterval (JFunction Refresh_table) 300000 initial_page)) = n"
  by (simp add: interval_elapsed_invocations) (simp add: setInterval_def initial_page_def)

text \<open>
  Claim C3. Loading the page enters \<open>refresh_table\<close> once, because the argument of
  \<open>setInterval\<close> is the call \<open>refresh_table()\<close>; what the timer receives is the value
  \<open>undefined\<close> that this call returns, not the function. However many delays of
  300000 ms elapse afterwards, the page stays as it was after loading: one invocation,
  one \<open>GET /requests\<close>, and a timer whose handler is \<open>undefined\<close>.
\<close>

theorem refresh_table_invoked_once:
  "(interval_elapsed ^^ n) (document_ready initial_page)
     = \<lparr>requests = [\<lparr>url = ''/requests'', type' = GET, data = []\<rparr>],
        invocations = 1,
        timers = [(JUndefined, 300000)]\<rparr>"
proof -
  have ready: "document_ready initial_page
     = \<lparr>requests = [\<lparr>url = ''/requests'', type' = GET, data = []\<rparr>],
        invocations = 1, timers = [(JUndefined, 300000)]\<rparr>"
    by (simp add: document_ready_def refresh_table_def setInterval_def initial_page_def)
  show ?thesis
    unfolding ready by (rule interval_elapsed_idle) simp
qed

section \<open>The sub-table refresher's success callback\<close>

lemma subtable_success_initialises:
  assumes "globals ''parametricjob'' = Some (JObject props)"
    and "json_parse (header_text (hdr ''Datatable-Order'')) = Some ord"
    and "json_parse (header_text (hdr ''Datatable-Columns'')) = Some cols"
  shows "subtable_success globals json_parse r response hdr
           = Inr \<lparr>selector = ''#subtable-'' @ int_to_string r, data' = response,
                  order' = ord, columns = cols\<rparr>"
  using assms by (simp add: subtable_success_def)

lemma subtable_success_undeclared:
  "globals ''parametricjob'' = None
     \<Longrightarrow> subtable_success globals json_parse r response hdr = Inl (ReferenceError ''parametricjob'')"
  by (simp add: subtable_success_def)

text \<open>
  Claim C2 says that the success callback of the sub-table refresher completes and calls
  \<open>DataTable\<close> on \<open>#subtable-{request_id}\<close>. In a page whose global object has no
  property \<open>parametricjob\<close> the callback throws a \<open>ReferenceError\<close> in its first
  statement instead, whatever the request id, the rows and the headers are; here for
  request 1, no rows, and headers that parse.
\<close>

theorem subtable_success_throws:
  "subtable_success (\<lambda>name. None) (\<lambda>text. Some ()) 1 [] (\<lambda>header. Some ''[]'')
     = Inl (ReferenceError ''parametricjob'')"
  by (simp add: subtable_success_def)

section \<open>Cell renderers\<close>

text \<open>
  Claim C5, as amended. The status cell is \<open>Rescheduled\<close> whenever the row's reschedule
  flag is set and the row's own status string otherwise; so the cell reads \<open>Rescheduled\<close>
  exactly when the flag is set or the status string itself is \<open>Rescheduled\<close>.
\<close>

theorem render_status_rescheduled:
  "(reschedule row \<longrightarrow> render_status row = ''Rescheduled'')
   \<and> (\<not> reschedule row \<longrightarrow> render_status row = status row)
   \<and> (render_status row = ''Rescheduled''
        \<longleftrightarrow> reschedule row \<or> status row = ''Rescheduled'')"
  by (simp add: render_status_def)

theorem render_status_rescheduled_witness:
  "reschedule \<lparr>id' = 7, request_id = 3, status = ''Failed'', reschedule = True, njobs = 10,
      num_completed = 3, num_failed = 2, num_running = 1, num_submitted = 1\<rparr>
   \<and> render_status \<lparr>id' = 7, request_id = 3, status = ''Failed'', reschedule = True, njobs = 10,
      num_completed = 3, num_failed = 2, num_running = 1, num_submitted = 1\<rparr> = ''Rescheduled''
   \<and> \<not> reschedule \<lparr>id' = 8, request_id = 3, status = ''Running'', reschedule = False,
      njobs = 10, num_completed = 3, num_failed = 2, num_running = 1, num_submitted = 1\<rparr>
   \<and> render_status \<lparr>id' = 8, request_id = 3, status = ''Running'', reschedule = False,
      njobs = 10, num_completed = 3, num_failed = 2, num_running = 1, num_submitted = 1\<rparr>
       = ''Running''"
  using render_status_rescheduled [of "\<lparr>id' = 7, request_id = 3, status = ''Failed'',
      reschedule = True, njobs = 10, num_completed = 3, num_failed = 2, num_running = 1,
      num_submitted = 1\<rparr>"]
    render_status_rescheduled [of "\<lparr>id' = 8, request_id = 3, status = ''Running'',
      reschedule = False, njobs = 10, num_completed = 3, num_failed = 2, num_running = 1,
      num_submitted = 1\<rparr>"]
  by simp

text \<open>
  As claim C5 states it, the cell would be \<open>Rescheduled\<close> only for a row whose flag is
  set. A row whose flag is clear and whose status string is \<open>Rescheduled\<close> shows the
  same text.
\<close>

theorem render_status_counterexample:
  "\<not> (render_status \<lparr>id' = 7, request_id = 3, status = ''Rescheduled'', reschedule = False,
          njobs = 10, num_completed = 3, num_failed = 2, num_running = 1, num_submitted = 1\<rparr>
        = ''Rescheduled''
       \<longleftrightarrow> reschedule \<lparr>id' = 7, request_id = 3, status = ''Rescheduled'', reschedule = False,
          njobs = 10, num_completed = 3, num_failed = 2, num_running = 1, num_submitted = 1\<rparr>)"
  by (simp add: render_status_def)

text \<open>
  Claim C6. The reschedule cell is the clickable glyph, with the row's id as \<open>macroid\<close>
  and the row's request id as \<open>requestid\<close>, exactly when the row's status is \<open>Failed\<close>;
  for every other status it is the empty string.
\<close>

theorem render_reschedule_failed:
  \<open>(render_reschedule row
      = ''<span class="glyphicon glyphicon-repeat text-primary reschedule" style="cursor:pointer" macroid="''
        @ int_to_string (id' row) @ ''" requestid="'' @ int_to_string (request_id row)
        @ ''"></span>''
      \<longleftrightarrow> status row = ''Failed'')
   \<and> (status row \<noteq> ''Failed'' \<longrightarrow> render_reschedule row = [])\<close>
  by (simp add: render_reschedule_def)

theorem render_reschedule_failed_witness:
  \<open>render_reschedule \<lparr>id' = 7, request_id = 3, status = ''Failed'', reschedule = False,
      njobs = 10, num_completed = 3, num_failed = 2, num_running = 1, num_submitted = 1\<rparr>
     = ''<span class="glyphicon glyphicon-repeat text-primary reschedule" style="cursor:pointer" macroid="7" requestid="3"></span>''
   \<and> status \<lparr>id' = 8, request_id = 3, status = ''Running'', reschedule = False, njobs = 10,
      num_completed = 3, num_failed = 2, num_running = 1, num_submitted = 1\<rparr> \<noteq> ''Failed''
   \<and> render_reschedule \<lparr>id' = 8, request_id = 3, status = ''Running'', reschedule = False,
      njobs = 10, num_completed = 3, num_failed = 2, num_running = 1, num_submitted = 1\<rparr> = []\<close>
  using render_reschedule_failed [of "\<lparr>id' = 7, request_id = 3, status = ''Failed'',
      reschedule = False, njobs = 10, num_completed = 3, num_failed = 2, num_running = 1,
      num_submitted = 1\<rparr>"]
    render_reschedule_failed [of "\<lparr>id' = 8, request_id = 3, status = ''Running'',
      reschedule = False, njobs = 10, num_completed = 3, num_failed = 2, num_running = 1,
      num_submitted = 1\<rparr>"]
  by (simp add: int_to_string_def)

section \<open>Row selection\<close>

lemma length_slice_addClass: "length (slice_addClass a b rs) = length rs"
  by (simp add: slice_addClass_def split: prod.splits)

lemma nth_slice_addClass:
  "i < length rs \<Longrightarrow>
   slice_addClass a b rs ! i
     = (rs ! i \<or> (fst (slice_bounds (int (length rs)) a b) \<le> int i
                  \<and> int i < snd (slice_bounds (int (length rs)) a b)))"
  by (simp add: slice_addClass_def split: prod.splits)

lemma length_toggleClass: "length (toggleClass i rs) = length rs"
  by (simp add: toggleClass_def)

lemma nth_toggleClass:
  "k < length rs \<Longrightarrow> toggleClass i rs ! k = (if k = i then \<not> rs ! k else rs ! k)"
  by (simp add: toggleClass_def nth_list_update)

lemma length_rows_row_click: "length (rows (row_click c s j st)) = length (rows st)"
  by (simp add: row_click_def Let_def length_toggleClass length_slice_addClass)

lemma mem_selected: "k \<in> set (selected st) \<longleftrightarrow> k < length (rows st) \<and> rows st ! k"
  by (auto simp: selected_def)

lemma plain_click:
  "i < length (rows st) \<Longrightarrow>
   row_click False False i st
     = \<lparr>rows = (map (\<lambda>_. False) (rows st))[i := True], last_selected = int i\<rparr>"
  by (simp add: row_click_def Let_def index_of_def toggleClass_def)

lemma shift_click_nth:
  assumes i: "i < length rs" and j: "j < length rs" and ij: "i \<noteq> j" and k: "k < length rs"
  shows "rows (row_click c True j
                 \<lparr>rows = (map (\<lambda>_. False) rs)[i := True], last_selected = int i\<rparr>) ! k
         = (min i j \<le> k \<and> k \<le> max i j)"
proof (cases "j < i")
  case True
  with i j k show ?thesis
    by (simp add: row_click_def Let_def index_of_def nth_toggleClass nth_slice_addClass
        length_slice_addClass slice_bounds_def nth_list_update) linarith
next
  case False
  with ij have "i < j" by simp
  with i j k show ?thesis
    by (simp add: row_click_def Let_def index_of_def nth_toggleClass nth_slice_addClass
        length_slice_addClass slice_bounds_def nth_list_update) linarith
qed

text \<open>
  Claim C4, as amended. A click without Ctrl and Shift on row \<open>i\<close> leaves exactly row \<open>i\<close>
  selected, whatever was selected before. A click with Shift (with or without Ctrl) on a
  different row \<open>j\<close> straight after it leaves exactly the rows from \<open>min i j\<close> to
  \<open>max i j\<close> selected.
\<close>

theorem click_selects_row_and_range:
  assumes "i < length (rows st)"
  shows "set (selected (row_click False False i st)) = {i}
         \<and> (j < length (rows st) \<and> i \<noteq> j \<longrightarrow>
              set (selected (row_click ctrlKey True j (row_click False False i st)))
                = {min i j..max i j})"
proof (intro conjI impI)
  show "set (selected (row_click False False i st)) = {i}"
    using assms by (auto simp: mem_selected plain_click nth_list_update split: if_splits)
next
  assume ji: "j < length (rows st) \<and> i \<noteq> j"
  then have j: "j < length (rows st)" and ij: "i \<noteq> j" by simp_all
  show "set (selected (row_click ctrlKey True j (row_click False False i st)))
          = {min i j..max i j}"
    unfolding plain_click [OF assms]
    using assms j shift_click_nth [OF assms j ij, of _ ctrlKey]
    by (auto simp: mem_selected length_rows_row_click)
qed

theorem click_selects_row_and_range_witness:
  "selected (row_click False False 3
       \<lparr>rows = [True, False, False, False, True], last_selected = 0\<rparr>) = [3]
   \<and> selected (row_click False True 1 (row_click False False 3
       \<lparr>rows = [True, False, False, False, True], last_selected = 0\<rparr>)) = [1, 2, 3]
   \<and> set (selected (row_click False True 1 (row_click False False 3
       \<lparr>rows = [True, False, False, False, True], last_selected = 0\<rparr>))) = {min 3 1..max 3 1}"
proof -
  have "set (selected (row_click False True 1 (row_click False False 3
       \<lparr>rows = [True, False, False, False, True], last_selected = 0\<rparr>))) = {min 3 1..max 3 1}"
    using click_selects_row_and_range
      [of 3 "\<lparr>rows = [True, False, False, False, True], last_selected = 0\<rparr>" 1 False]
    by simp
  moreover have "selected (row_click False False 3
       \<lparr>rows = [True, False, False, False, True], last_selected = 0\<rparr>) = [3]"
    by code_simp
  moreover have "selected (row_click False True 1 (row_click False False 3
       \<lparr>rows = [True, False, False, False, True], last_selected = 0\<rparr>)) = [1, 2, 3]"
    by code_simp
  ultimately show ?thesis by simp
qed

text \<open>
  As claim C4 states it, a click with Shift on the row that was just selected would keep
  that row selected. The handler toggles the clicked row after marking the range, so
  the row loses its mark and nothing is selected.
\<close>

theorem shift_click_same_row_counterexample:
  "selected (row_click False True 1 (row_click False False 1
       \<lparr>rows = [False, False, False], last_selected = 0\<rparr>)) = []
   \<and> set (selected (row_click False True 1 (row_click False False 1
       \<lparr>rows = [False, False, False], last_selected = 0\<rparr>))) \<noteq> {min 1 1..max 1 1}"
proof -
  have "selected (row_click False True 1 (row_click False False 1
       \<lparr>rows = [False, False, False], last_selected = 0\<rparr>)) = []"
    by code_simp
  then show ?thesis by simp
qed

section \<open>Batches of requests\<close>

lemma filter_update_count:
  "k < length xs \<Longrightarrow>
   length (filter P (xs[k := v])) + (if P (xs ! k) then 1 else 0)
     = length (filter P xs) + (if P v then 1 else 0)"
proof (induction xs arbitrary: k)
  case Nil
  then show ?case by simp
next
  case (Cons x xs)
  then show ?case by (cases k) auto
qed

lemma when_done_inv: "batch_inv (when_done calls cb)"
  by (auto simp: batch_inv_def when_done_def filter_empty_conv)

lemma settle_inv:
  assumes "batch_inv b"
  shows "batch_inv (settle k ok b)"
proof (cases "k < length (jqxhr b) \<and> jqxhr b ! k = Pending")
  case False
  then show ?thesis using assms by (auto simp: settle_def)
next
  case True
  then have k: "k < length (jqxhr b)" and p: "jqxhr b ! k = Pending" by auto
  let ?open = "\<lambda>s. s \<noteq> Resolved"
  have pos: "0 < length (filter ?open (jqxhr b))"
    using k p by (auto simp: filter_empty_conv length_greater_0_conv set_conv_nth)
  have cR: "length (filter ?open ((jqxhr b)[k := Resolved])) = length (filter ?open (jqxhr b)) - 1"
    using filter_update_count [OF k, of ?open Resolved] p by simp
  have cJ: "length (filter ?open ((jqxhr b)[k := Rejected])) = length (filter ?open (jqxhr b))"
    using filter_update_count [OF k, of ?open Rejected] p by simp
  have setR: "Rejected \<in> set ((jqxhr b)[k := Resolved]) \<longleftrightarrow> Rejected \<in> set (jqxhr b)"
    using k p by (auto simp: set_conv_nth nth_list_update) (metis promise_state.distinct(3))+
  have setJ: "Rejected \<in> set ((jqxhr b)[k := Rejected])"
    using k by (simp add: set_update_memI)
  show ?thesis
  proof (cases ok)
    case True
    then show ?thesis using assms k p pos cR setR
      by (auto simp: settle_def batch_inv_def Let_def)
  next
    case False
    then show ?thesis using assms k p pos cJ setJ
      by (auto simp: settle_def batch_inv_def Let_def)
  qed
qed

lemma run_inv: "batch_inv b \<Longrightarrow> batch_inv (run evs b)"
  by (induction evs arbitrary: b) (auto simp: settle_inv)

lemma settle_calls:
  "ajax_calls (settle k ok b) = ajax_calls b \<and> done_callback (settle k ok b) = done_callback b"
  by (simp add: settle_def Let_def)

lemma run_calls:
  "ajax_calls (run evs b) = ajax_calls b \<and> done_callback (run evs b) = done_callback b"
  by (induction evs arbitrary: b) (auto simp: settle_calls)

lemma inv_performed:
  assumes "batch_inv b" and "performed b \<noteq> []"
  shows "performed b = done_callback b \<and> list_all (\<lambda>s. s = Resolved) (jqxhr b)"
proof -
  from assms have res: "deferred b = Resolved"
    by (auto simp: batch_inv_def split: if_splits)
  with assms(1) have "length (filter (\<lambda>s. s \<noteq> Resolved) (jqxhr b)) = 0"
    by (auto simp: batch_inv_def split: if_splits)
  then have "list_all (\<lambda>s. s = Resolved) (jqxhr b)"
    by (simp add: filter_empty_conv list_all_iff)
  with assms(1) res show ?thesis by (simp add: batch_inv_def)
qed

lemma inv_all_resolved:
  assumes "batch_inv b" and "list_all (\<lambda>s. s = Resolved) (jqxhr b)"
  shows "deferred b = Resolved \<and> performed b = done_callback b"
proof -
  from assms(2) have "Rejected \<notin> set (jqxhr b)" and "filter (\<lambda>s. s \<noteq> Resolved) (jqxhr b) = []"
    by (auto simp: list_all_iff filter_empty_conv)
  with assms(1) show ?thesis by (simp add: batch_inv_def)
qed

lemma inv_rejected:
  assumes "batch_inv b" and "Rejected \<in> set (jqxhr b)"
  shows "deferred b = Rejected \<and> performed b = []"
  using assms by (simp add: batch_inv_def)

lemma when_done_run:
  "ajax_calls (run evs (when_done calls cb)) = calls
   \<and> (performed (run evs (when_done calls cb)) = []
      \<or> performed (run evs (when_done calls cb)) = cb
        \<and> list_all (\<lambda>s. s = Resolved) (jqxhr (run evs (when_done calls cb))))"
proof -
  have inv: "batch_inv (run evs (when_done calls cb))"
    by (rule run_inv) (rule when_done_inv)
  have cb: "done_callback (run evs (when_done calls cb)) = cb"
    by (simp add: run_calls) (simp add: when_done_def)
  have calls: "ajax_calls (run evs (when_done calls cb)) = calls"
    by (simp add: run_calls) (simp add: when_done_def)
  show ?thesis
    using inv_performed [OF inv] cb calls by auto
qed

lemma when_done_all_resolved:
  "list_all (\<lambda>s. s = Resolved) (jqxhr (run evs (when_done calls cb)))
     \<Longrightarrow> performed (run evs (when_done calls cb)) = cb"
proof -
  assume all: "list_all (\<lambda>s. s = Resolved) (jqxhr (run evs (when_done calls cb)))"
  have inv: "batch_inv (run evs (when_done calls cb))"
    by (rule run_inv) (rule when_done_inv)
  have cb: "done_callback (run evs (when_done calls cb)) = cb"
    by (simp add: run_calls) (simp add: when_done_def)
  show ?thesis using inv_all_resolved [OF inv all] cb by simp
qed

lemma when_done_rejected:
  "Rejected \<in> set (jqxhr (run evs (when_done calls cb)))
     \<Longrightarrow> deferred (run evs (when_done calls cb)) = Rejected
         \<and> performed (run evs (when_done calls cb)) = []"
  by (rule inv_rejected) (auto intro: run_inv when_done_inv)

lemma when_done_pending: "calls \<noteq> [] \<Longrightarrow> performed (when_done calls cb) = []"
  by (simp add: when_done_def)

lemma settle_length: "length (jqxhr (settle j ok b)) = length (jqxhr b)"
  by (simp add: settle_def Let_def)

lemma run_length: "length (jqxhr (run evs b)) = length (jqxhr b)"
  by (induction evs arbitrary: b) (auto simp: settle_length)

lemma settle_nth:
  "k < length (jqxhr b) \<Longrightarrow>
   jqxhr (settle j ok b) ! k
     = (if j = k \<and> jqxhr b ! k = Pending then (if ok then Resolved else Rejected)
        else jqxhr b ! k)"
  by (simp add: settle_def Let_def nth_list_update)

lemma run_nth:
  "k < length (jqxhr b) \<Longrightarrow>
   jqxhr (run evs b) ! k
     = (if jqxhr b ! k = Pending
        then (case map_of evs k of None \<Rightarrow> Pending
              | Some ok \<Rightarrow> if ok then Resolved else Rejected)
        else jqxhr b ! k)"
proof (induction evs arbitrary: b)
  case Nil
  then show ?case by simp
next
  case (Cons ev evs)
  obtain j ok where ev: "ev = (j, ok)" by (cases ev)
  from Cons.prems have k: "k < length (jqxhr (settle j ok b))"
    by (simp add: settle_length)
  show ?case
    unfolding ev using Cons.IH [OF k] Cons.prems
    by (simp add: settle_nth)
qed

lemma when_done_nth:
  assumes "k < length calls"
  shows "jqxhr (run evs (when_done calls cb)) ! k
           = (case map_of evs k of None \<Rightarrow> Pending
              | Some ok \<Rightarrow> if ok then Resolved else Rejected)"
proof -
  have "k < length (jqxhr (when_done calls cb))" "jqxhr (when_done calls cb) ! k = Pending"
    using assms by (simp_all add: when_done_def)
  then show ?thesis by (simp add: run_nth)
qed

lemma when_done_length: "length (jqxhr (run evs (when_done calls cb))) = length calls"
  by (simp add: run_length) (simp add: when_done_def)

lemma all_resolved_iff:
  "list_all (\<lambda>s. s = Resolved) (jqxhr (run evs (when_done calls cb)))
     \<longleftrightarrow> all_succeeded (length calls) evs"
proof -
  have "jqxhr (run evs (when_done calls cb)) ! k = Resolved \<longleftrightarrow> map_of evs k = Some True"
    if "k < length calls" for k
    using when_done_nth [OF that, of evs cb] by (auto split: option.splits)
  then show ?thesis
    by (auto simp: all_succeeded_def list_all_length when_done_length list_all_iff)
qed

lemma rejected_iff:
  "Rejected \<in> set (jqxhr (run evs (when_done calls cb)))
     \<longleftrightarrow> some_failed (length calls) evs"
proof -
  have "jqxhr (run evs (when_done calls cb)) ! k = Rejected \<longleftrightarrow> map_of evs k = Some False"
    if "k < length calls" for k
    using when_done_nth [OF that, of evs cb] by (auto split: option.splits)
  then show ?thesis
    by (auto simp: some_failed_def in_set_conv_nth when_done_length list_ex_iff)
qed

lemma inv_performed_iff:
  assumes "batch_inv b"
  shows "performed b = (if list_all (\<lambda>s. s = Resolved) (jqxhr b) then done_callback b else [])"
proof (cases "list_all (\<lambda>s. s = Resolved) (jqxhr b)")
  case True
  with inv_all_resolved [OF assms] show ?thesis by simp
next
  case False
  then have "filter (\<lambda>s. s \<noteq> Resolved) (jqxhr b) \<noteq> []"
    by (auto simp: list_all_iff filter_empty_conv)
  with assms have "deferred b \<noteq> Resolved"
    by (auto simp: batch_inv_def)
  with assms False show ?thesis by (simp add: batch_inv_def)
qed

lemma inv_deferred_iff:
  assumes "batch_inv b"
  shows "deferred b = (if Rejected \<in> set (jqxhr b) then Rejected
                       else if list_all (\<lambda>s. s = Resolved) (jqxhr b) then Resolved
                       else Pending)"
proof -
  have "remaining b = 0 \<longleftrightarrow> list_all (\<lambda>s. s = Resolved) (jqxhr b)"
    using assms by (auto simp: batch_inv_def list_all_iff filter_empty_conv)
  with assms show ?thesis by (simp add: batch_inv_def)
qed

text \<open>
  What a batch has done is decided by the answers alone: the continuation has run
  exactly when every request has been answered with success, and the aggregate is
  rejected exactly when some request has been answered with an error.
\<close>

lemma when_done_performed:
  "performed (run evs (when_done calls cb))
     = (if all_succeeded (length calls) evs then cb else [])"
proof -
  have inv: "batch_inv (run evs (when_done calls cb))"
    by (rule run_inv) (rule when_done_inv)
  have cb: "done_callback (run evs (when_done calls cb)) = cb"
    by (simp add: run_calls) (simp add: when_done_def)
  show ?thesis
    using inv_performed_iff [OF inv] by (simp add: cb all_resolved_iff)
qed

lemma when_done_deferred:
  "deferred (run evs (when_done calls cb))
     = (if some_failed (length calls) evs then Rejected
        else if all_succeeded (length calls) evs then Resolved else Pending)"
proof -
  have inv: "batch_inv (run evs (when_done calls cb))"
    by (rule run_inv) (rule when_done_inv)
  show ?thesis
    using inv_deferred_iff [OF inv] by (simp add: all_resolved_iff rejected_iff)
qed

lemma failed_not_succeeded: "some_failed n evs \<Longrightarrow> \<not> all_succeeded n evs"
  by (fastforce simp: some_failed_def all_succeeded_def list_ex_iff list_all_iff)

lemma when_done_calls: "ajax_calls (run evs (when_done calls cb)) = calls"
  by (simp add: run_calls) (simp add: when_done_def)

text \<open>
  Claim C7, as amended. When the menu entry is not disabled and the list of selected
  ids is not empty, the approve action issues one \<open>PUT /requests/{id}\<close> with body
  \<open>status = Approved\<close> for each id of the list, in order, and the delete action one
  \<open>DELETE /requests/{id}\<close> for each id; no request is added later. Nothing is reloaded
  or announced when the requests are issued. Whatever answers have arrived, and in
  whatever order, the reload and the banner with the count have happened if every
  request has been answered with success, and nothing has happened otherwise: not
  while a request is unanswered, and not after an error.
\<close>

theorem context_actions_one_request_per_id:
  assumes "ids \<noteq> []"
  shows "\<exists>a d. contextApprove_click False ids = Some a
           \<and> contextDelete_click False ids = Some d
           \<and> ajax_calls a
               = map (\<lambda>i. \<lparr>url = ''/requests/'' @ int_to_string i, type' = PUT,
                            data = [(''status'', ''Approved'')]\<rparr>) ids
           \<and> ajax_calls d
               = map (\<lambda>i. \<lparr>url = ''/requests/'' @ int_to_string i, type' = DELETE,
                            data = []\<rparr>) ids
           \<and> performed a = [] \<and> performed d = []
           \<and> (\<forall>evs. ajax_calls (run evs a) = ajax_calls a
                 \<and> performed (run evs a)
                     = (if all_succeeded (length ids) evs
                        then [Table_reload,
                              Bootstrap_alert ''Info!''
                                (''Approved '' @ int_to_string (int (length ids)) @ '' request(s)'')
                                ''alert-info'']
                        else [])
                 \<and> (performed (run evs a) = []
                    \<or> performed (run evs a)
                        = [Table_reload,
                           Bootstrap_alert ''Info!''
                             (''Approved '' @ int_to_string (int (length ids)) @ '' request(s)'')
                             ''alert-info'']
                      \<and> list_all (\<lambda>s. s = Resolved) (jqxhr (run evs a))))
           \<and> (\<forall>evs. ajax_calls (run evs d) = ajax_calls d
                 \<and> performed (run evs d)
                     = (if all_succeeded (length ids) evs
                        then [Table_reload,
                              Bootstrap_alert ''Attention!''
                                (''Deleted '' @ int_to_string (int (length ids)) @ '' request(s)'')
                                ''alert-danger'']
                        else [])
                 \<and> (performed (run evs d) = []
                    \<or> performed (run evs d)
                        = [Table_reload,
                           Bootstrap_alert ''Attention!''
                             (''Deleted '' @ int_to_string (int (length ids)) @ '' request(s)'')
                             ''alert-danger'']
                      \<and> list_all (\<lambda>s. s = Resolved) (jqxhr (run evs d))))"
  using assms
  by (simp add: contextApprove_click_def contextDelete_click_def when_done_performed
      when_done_calls when_done_pending all_resolved_iff)
    (simp add: when_done_def)

theorem context_actions_one_request_per_id_witness:
  "[3, 5] \<noteq> ([] :: int list)
   \<and> (\<exists>a d. contextApprove_click False [3, 5] = Some a
         \<and> contextDelete_click False [3, 5] = Some d
         \<and> ajax_calls a
             = [\<lparr>url = ''/requests/3'', type' = PUT, data = [(''status'', ''Approved'')]\<rparr>,
                \<lparr>url = ''/requests/5'', type' = PUT, data = [(''status'', ''Approved'')]\<rparr>]
         \<and> ajax_calls d
             = [\<lparr>url = ''/requests/3'', type' = DELETE, data = []\<rparr>,
                \<lparr>url = ''/requests/5'', type' = DELETE, data = []\<rparr>]
         \<and> \<not> all_succeeded 2 [(1, True)]
         \<and> performed (run [(1, True)] a) = []
         \<and> all_succeeded 2 [(1, True), (0, True)]
         \<and> performed (run [(1, True), (0, True)] a)
             = [Table_reload, Bootstrap_alert ''Info!'' ''Approved 2 request(s)'' ''alert-info'']
         \<and> \<not> all_succeeded 2 [(0, True), (1, False)]
         \<and> performed (run [(0, True), (1, False)] a) = []
         \<and> performed (run [(0, True), (1, True)] d)
             = [Table_reload,
                Bootstrap_alert ''Attention!'' ''Deleted 2 request(s)'' ''alert-danger''])"
proof -
  have ne: "[3, 5] \<noteq> ([] :: int list)" by simp
  from context_actions_one_request_per_id [OF ne]
  obtain a d where a: "contextApprove_click False [3, 5] = Some a"
    and d: "contextDelete_click False [3, 5] = Some d"
    and ca: "ajax_calls a
               = map (\<lambda>i. \<lparr>url = ''/requests/'' @ int_to_string i, type' = PUT,
                            data = [(''status'', ''Approved'')]\<rparr>) [3, 5]"
    and cd: "ajax_calls d
               = map (\<lambda>i. \<lparr>url = ''/requests/'' @ int_to_string i, type' = DELETE,
                            data = []\<rparr>) [3, 5]"
    and pa: "\<And>evs. performed (run evs a)
                     = (if all_succeeded (length [3::int, 5]) evs
                        then [Table_reload,
                              Bootstrap_alert ''Info!''
                                (''Approved '' @ int_to_string (int (length [3::int, 5]))
                                   @ '' request(s)'')
                                ''alert-info'']
                        else [])"
    and pd: "\<And>evs. performed (run evs d)
                     = (if all_succeeded (length [3::int, 5]) evs
                        then [Table_reload,
                              Bootstrap_alert ''Attention!''
                                (''Deleted '' @ int_to_string (int (length [3::int, 5]))
                                   @ '' request(s)'')
                                ''alert-danger'']
                        else [])"
    by blast
  show ?thesis
    using a d ca cd
    by (simp add: pa pd int_to_string_def all_succeeded_def upt_rec del: run.simps)
qed

text \<open>
  As claim C7 states it, the actions would issue their requests for every non-empty list
  of ids. Both handlers return at once when their menu entry carries the class
  \<open>disabled\<close>, and then nothing is issued.
\<close>

theorem context_actions_disabled_counterexample:
  "contextApprove_click True [3, 5] = None \<and> contextDelete_click True [3, 5] = None"
  by (simp add: contextApprove_click_def contextDelete_click_def)

text \<open>
  Claim C8. In a batch started by the approve or the delete action, once the server
  has answered one request with an error the aggregate is rejected and the continuation
  has not run: no reload and no banner, and no request is issued again; this holds
  whatever the other answers are and whenever they arrive. The continuation has run
  only when every request of the batch has been answered with success.
\<close>

theorem batch_failure_skips_continuation:
  assumes "contextApprove_click disabled ids = Some b
             \<or> contextDelete_click disabled ids = Some b"
  shows "(some_failed (length ids) evs \<longrightarrow>
            deferred (run evs b) = Rejected \<and> performed (run evs b) = []
            \<and> ajax_calls (run evs b) = ajax_calls b)
         \<and> (performed (run evs b) \<noteq> [] \<longrightarrow> all_succeeded (length ids) evs)
         \<and> (some_failed (length ids) evs \<longleftrightarrow> Rejected \<in> set (jqxhr (run evs b)))
         \<and> (all_succeeded (length ids) evs
              \<longleftrightarrow> list_all (\<lambda>s. s = Resolved) (jqxhr (run evs b)))
         \<and> (Rejected \<in> set (jqxhr (run evs b)) \<longrightarrow>
              deferred (run evs b) = Rejected \<and> performed (run evs b) = []
              \<and> ajax_calls (run evs b) = ajax_calls b)
         \<and> (performed (run evs b) \<noteq> [] \<longrightarrow>
              list_all (\<lambda>s. s = Resolved) (jqxhr (run evs b)))"
proof -
  from assms obtain calls cb where b: "b = when_done calls cb" and n: "length calls = length ids"
    by (auto simp: contextApprove_click_def contextDelete_click_def split: if_splits)
  have same: "ajax_calls (when_done calls cb) = calls"
    by (simp add: when_done_def)
  show ?thesis
    unfolding b same
    using failed_not_succeeded [of "length ids" evs]
    by (simp add: when_done_performed when_done_deferred when_done_calls rejected_iff
        all_resolved_iff n)
qed

theorem batch_failure_skips_continuation_witness:
  "contextApprove_click False [3, 5]
     = Some (when_done
         [\<lparr>url = ''/requests/3'', type' = PUT, data = [(''status'', ''Approved'')]\<rparr>,
          \<lparr>url = ''/requests/5'', type' = PUT, data = [(''status'', ''Approved'')]\<rparr>]
         [Table_reload, Bootstrap_alert ''Info!'' ''Approved 2 request(s)'' ''alert-info''])
   \<and> some_failed (length [3 :: int, 5]) [(0, True), (1, False)]
   \<and> jqxhr (run [(0, True), (1, False)] (when_done
         [\<lparr>url = ''/requests/3'', type' = PUT, data = [(''status'', ''Approved'')]\<rparr>,
          \<lparr>url = ''/requests/5'', type' = PUT, data = [(''status'', ''Approved'')]\<rparr>]
         [Table_reload, Bootstrap_alert ''Info!'' ''Approved 2 request(s)'' ''alert-info'']))
       = [Resolved, Rejected]
   \<and> deferred (run [(0, True), (1, False)] (when_done
         [\<lparr>url = ''/requests/3'', type' = PUT, data = [(''status'', ''Approved'')]\<rparr>,
          \<lparr>url = ''/requests/5'', type' = PUT, data = [(''status'', ''Approved'')]\<rparr>]
         [Table_reload, Bootstrap_alert ''Info!'' ''Approved 2 request(s)'' ''alert-info'']))
       = Rejected
   \<and> performed (run [(0, True), (1, False)] (when_done
         [\<lparr>url = ''/requests/3'', type' = PUT, data = [(''status'', ''Approved'')]\<rparr>,
          \<lparr>url = ''/requests/5'', type' = PUT, data = [(''status'', ''Approved'')]\<rparr>]
         [Table_reload, Bootstrap_alert ''Info!'' ''Approved 2 request(s)'' ''alert-info'']))
       = []"
proof -
  let ?b = "when_done
         [\<lparr>url = ''/requests/3'', type' = PUT, data = [(''status'', ''Approved'')]\<rparr>,
          \<lparr>url = ''/requests/5'', type' = PUT, data = [(''status'', ''Approved'')]\<rparr>]
         [Table_reload, Bootstrap_alert ''Info!'' ''Approved 2 request(s)'' ''alert-info'']"
  have click: "contextApprove_click False [3, 5] = Some ?b"
    by (simp add: contextApprove_click_def int_to_string_def)
  have states: "jqxhr (run [(0, True), (1, False)] ?b) = [Resolved, Rejected]"
    by (simp add: when_done_def settle_def Let_def)
  have failed: "some_failed (length [3 :: int, 5]) [(0, True), (1, False)]"
    by (simp add: some_failed_def upt_rec)
  from batch_failure_skips_continuation
    [of False "[3, 5]" ?b "[(0, True), (1, False)]", OF disjI1, OF click] failed
  have "deferred (run [(0, True), (1, False)] ?b) = Rejected
          \<and> performed (run [(0, True), (1, False)] ?b) = []"
    by blast
  with click states failed show ?thesis by blast
qed

text \<open>
  Claim C10. A key press with key code 46 while rows are selected opens the dialog
  \<open>Really delete n request(s)?\<close>. If the answer is no, nothing is issued. If it is yes,
  one \<open>DELETE /requests/{id}\<close> is issued for each selected row and none later; once the
  server has answered every one of them with success the grid has been reloaded and the
  banner \<open>Deleted n requests\<close> shown, with \<open>n\<close> the number of requests issued, and
  neither has happened while an answer is missing or after an error. With no row
  selected the key press does nothing.
\<close>

theorem delete_key_confirms_then_deletes:
  assumes "selected_ids \<noteq> []"
  shows "body_keypress 46 selected_ids
           = Some (Confirm
               (''Really delete '' @ int_to_string (int (length selected_ids)) @ '' request(s)?'')
               (confirm_callback selected_ids))
         \<and> confirm_callback selected_ids False = None
         \<and> (\<exists>b. confirm_callback selected_ids True = Some b
               \<and> ajax_calls b
                   = map (\<lambda>i. \<lparr>url = ''/requests/'' @ int_to_string i, type' = DELETE,
                                data = []\<rparr>) selected_ids
               \<and> performed b = []
               \<and> (\<forall>evs. ajax_calls (run evs b) = ajax_calls b
                     \<and> performed (run evs b)
                         = (if all_succeeded (length selected_ids) evs
                            then [Table_reload,
                                  Bootstrap_alert ''Attention!''
                                    (''Deleted '' @ int_to_string (int (length (ajax_calls b)))
                                       @ '' requests'')
                                    ''alert-danger'']
                            else [])
                     \<and> (all_succeeded (length selected_ids) evs
                          \<longleftrightarrow> list_all (\<lambda>s. s = Resolved) (jqxhr (run evs b)))
                     \<and> (list_all (\<lambda>s. s = Resolved) (jqxhr (run evs b)) \<longrightarrow>
                          performed (run evs b)
                            = [Table_reload,
                               Bootstrap_alert ''Attention!''
                                 (''Deleted '' @ int_to_string (int (length (ajax_calls b)))
                                    @ '' requests'')
                                 ''alert-danger''])
                     \<and> (performed (run evs b) \<noteq> [] \<longrightarrow>
                          list_all (\<lambda>s. s = Resolved) (jqxhr (run evs b)))))
         \<and> body_keypress 46 [] = None"
proof -
  let ?calls = "map (\<lambda>i. \<lparr>url = ''/requests/'' @ int_to_string i, type' = DELETE,
                           data = []\<rparr>) selected_ids"
  let ?cb = "[Table_reload,
              Bootstrap_alert ''Attention!''
                (''Deleted '' @ int_to_string (int (length ?calls)) @ '' requests'')
                ''alert-danger'']"
  have cb: "confirm_callback selected_ids True = Some (when_done ?calls ?cb)"
    by (simp add: confirm_callback_def Let_def)
  have calls: "ajax_calls (when_done ?calls ?cb) = ?calls"
    by (simp add: when_done_def)
  have idle: "performed (when_done ?calls ?cb) = []"
    using assms by (simp add: when_done_def)
  have later: "ajax_calls (run evs (when_done ?calls ?cb)) = ajax_calls (when_done ?calls ?cb)
      \<and> performed (run evs (when_done ?calls ?cb))
          = (if all_succeeded (length selected_ids) evs
             then [Table_reload,
                   Bootstrap_alert ''Attention!''
                     (''Deleted ''
                        @ int_to_string (int (length (ajax_calls (when_done ?calls ?cb))))
                        @ '' requests'')
                     ''alert-danger'']
             else [])
      \<and> (all_succeeded (length selected_ids) evs
           \<longleftrightarrow> list_all (\<lambda>s. s = Resolved) (jqxhr (run evs (when_done ?calls ?cb))))
      \<and> (list_all (\<lambda>s. s = Resolved) (jqxhr (run evs (when_done ?calls ?cb))) \<longrightarrow>
            performed (run evs (when_done ?calls ?cb))
              = [Table_reload,
                 Bootstrap_alert ''Attention!''
                   (''Deleted '' @ int_to_string (int (length (ajax_calls (when_done ?calls ?cb))))
                      @ '' requests'')
                   ''alert-danger''])
      \<and> (performed (run evs (when_done ?calls ?cb)) \<noteq> [] \<longrightarrow>
            list_all (\<lambda>s. s = Resolved) (jqxhr (run evs (when_done ?calls ?cb))))" for evs
    using when_done_performed [of evs ?calls ?cb] all_resolved_iff [of evs ?calls ?cb]
      when_done_calls [of evs ?calls ?cb]
    unfolding calls by simp
  have key: "body_keypress 46 selected_ids
           = Some (Confirm
               (''Really delete '' @ int_to_string (int (length selected_ids)) @ '' request(s)?'')
               (confirm_callback selected_ids))"
    using assms by (simp add: body_keypress_def)
  have no: "confirm_callback selected_ids False = None"
    by (simp add: confirm_callback_def)
  have none: "body_keypress 46 [] = None"
    by (simp add: body_keypress_def)
  from cb calls idle later
  have ex: "\<exists>b. confirm_callback selected_ids True = Some b
               \<and> ajax_calls b = ?calls
               \<and> performed b = []
               \<and> (\<forall>evs. ajax_calls (run evs b) = ajax_calls b
                     \<and> performed (run evs b)
                         = (if all_succeeded (length selected_ids) evs
                            then [Table_reload,
                                  Bootstrap_alert ''Attention!''
                                    (''Deleted '' @ int_to_string (int (length (ajax_calls b)))
                                       @ '' requests'')
                                    ''alert-danger'']
                            else [])
                     \<and> (all_succeeded (length selected_ids) evs
                          \<longleftrightarrow> list_all (\<lambda>s. s = Resolved) (jqxhr (run evs b)))
                     \<and> (list_all (\<lambda>s. s = Resolved) (jqxhr (run evs b)) \<longrightarrow>
                          performed (run evs b)
                            = [Table_reload,
                               Bootstrap_alert ''Attention!''
                                 (''Deleted '' @ int_to_string (int (length (ajax_calls b)))
                                    @ '' requests'')
                                 ''alert-danger''])
                     \<and> (performed (run evs b) \<noteq> [] \<longrightarrow>
                          list_all (\<lambda>s. s = Resolved) (jqxhr (run evs b))))"
    by blast
  from key no ex none show ?thesis by blast
qed

theorem delete_key_confirms_then_deletes_witness:
  "[3, 5] \<noteq> ([] :: int list)
   \<and> body_keypress 46 [3, 5]
       = Some (Confirm ''Really delete 2 request(s)?'' (confirm_callback [3, 5]))
   \<and> (\<exists>b. confirm_callback [3, 5] True = Some b
         \<and> ajax_calls b
             = [\<lparr>url = ''/requests/3'', type' = DELETE, data = []\<rparr>,
                \<lparr>url = ''/requests/5'', type' = DELETE, data = []\<rparr>]
         \<and> \<not> all_succeeded 2 [(1, True)]
         \<and> performed (run [(1, True)] b) = []
         \<and> all_succeeded 2 [(1, True), (0, True)]
         \<and> jqxhr (run [(1, True), (0, True)] b) = [Resolved, Resolved]
         \<and> performed (run [(1, True), (0, True)] b)
             = [Table_reload,
                Bootstrap_alert ''Attention!'' ''Deleted 2 requests'' ''alert-danger''])"
proof -
  have ne: "[3, 5] \<noteq> ([] :: int list)" by simp
  from delete_key_confirms_then_deletes [OF ne]
  have key: "body_keypress 46 [3, 5]
       = Some (Confirm (''Really delete '' @ int_to_string (int (length [3::int, 5]))
                          @ '' request(s)?'') (confirm_callback [3, 5]))"
    by blast
  have b: "confirm_callback [3, 5] True
     = Some (when_done [\<lparr>url = ''/requests/3'', type' = DELETE, data = []\<rparr>,
                        \<lparr>url = ''/requests/5'', type' = DELETE, data = []\<rparr>]
               [Table_reload,
                Bootstrap_alert ''Attention!'' ''Deleted 2 requests'' ''alert-danger''])"
    by (simp add: confirm_callback_def Let_def int_to_string_def)
  have s1: "\<not> all_succeeded 2 [(1, True)]"
    and s2: "all_succeeded 2 [(1, True), (0, True)]"
    by (simp_all add: all_succeeded_def upt_rec)
  show ?thesis
    using key s1 s2 unfolding b
    by (simp add: int_to_string_def) (simp add: when_done_def settle_def Let_def)
qed

end
